theory Spec2Isabelle
  imports Main "HOL-Library.Word"
begin

unbundle bit_operations_syntax

section \<open>smtpfd: the privileged process (smtpfd.c)\<close>

subsection \<open>Configuration model\<close>

text \<open>
  \<^verbatim>\<open>struct filter_conf\<close> is declared in smtpfd.h; smtpfd.c reads the fields
  \<^verbatim>\<open>name\<close>, \<^verbatim>\<open>chain\<close>, \<^verbatim>\<open>argc\<close> and \<^verbatim>\<open>argv\<close>. The flag \<^verbatim>\<open>chain\<close> is only ever
  tested for being non-zero, so it is a boolean here. \<open>argv\<close> holds the entries
  \<^verbatim>\<open>argv[0] .. argv[argc - 1]\<close>, so \<^verbatim>\<open>argc\<close> is its length. The tail queue
  \<^verbatim>\<open>conf->filters\<close> is a list in insertion order.
\<close>

record filter_conf =
  name :: string
  chain_flag :: bool
  argv :: "string list"

record smtpfd_conf =
  filters :: "filter_conf list"

subsection \<open>Messages to the children\<close>

datatype imsg_type =
    IMSG_SOCKET_IPC
  | IMSG_RECONF_CONF
  | IMSG_RECONF_FILTER
  | IMSG_RECONF_FILTER_PROC
  | IMSG_RECONF_FILTER_NODE
  | IMSG_RECONF_END
  | IMSG_CTL_RELOAD
  | IMSG_CTL_LOG_VERBOSE
  | IMSG_CTL_SHOW_MAIN_INFO
  | IMSG_CTL_END
  | IMSG_OTHER nat

text \<open>
  One call \<^verbatim>\<open>proc_compose(p, type, peerid, pid, fd, data, len)\<close>: the payload is
  \<open>None\<close> for \<^verbatim>\<open>NULL\<close>, and otherwise the string whose \<^verbatim>\<open>strlen + 1\<close> bytes are sent.
\<close>

datatype imsg = Imsg (imsg_type: imsg_type) (imsg_peerid: int) (imsg_pid: int)
  (imsg_fd: int) (imsg_data: "string option")

subsection \<open>priv\_send\_filter\_conf\<close>

text \<open>
  The inner \<^verbatim>\<open>TAILQ_FOREACH\<close> of \<^verbatim>\<open>priv_send_filter_conf\<close>: the first entry of the
  configuration whose name is \<^verbatim>\<open>strcmp\<close>-equal to the reference; the loop
  \<^verbatim>\<open>break\<close>s there.
\<close>

definition lookup_filter :: "smtpfd_conf \<Rightarrow> string \<Rightarrow> filter_conf option" where
  "lookup_filter conf a = find (\<lambda>tmp. name tmp = a) (filters conf)"

text \<open>
  \<^verbatim>\<open>priv_send_filter_conf\<close> only calls \<^verbatim>\<open>proc_compose\<close> on \<^verbatim>\<open>p_engine\<close> and
  ignores what it returns, so its effect is the list of messages it composes, in
  order. The function calls itself with no guard against a chain that reaches
  itself; the first argument bounds the number of nested activations (the one
  being entered included), and \<open>None\<close> says that the bound was hit.
  \<open>send_members\<close> is the \<^verbatim>\<open>for\<close> loop over \<^verbatim>\<open>f->argv\<close>.
\<close>

fun priv_send_filter_conf :: "nat \<Rightarrow> smtpfd_conf \<Rightarrow> filter_conf \<Rightarrow> imsg list option"
  and send_members :: "nat \<Rightarrow> smtpfd_conf \<Rightarrow> string list \<Rightarrow> imsg list option" where
  "priv_send_filter_conf 0 conf f = None"
| "priv_send_filter_conf (Suc n) conf f =
     (if chain_flag f then send_members n conf (argv f)
      else Some [Imsg IMSG_RECONF_FILTER_NODE 0 0 (- 1) (Some (name f))])"
| "send_members n conf [] = Some []"
| "send_members n conf (a # as) =
     (case lookup_filter conf a of
        None \<Rightarrow> send_members n conf as
      | Some tmp \<Rightarrow>
          (case priv_send_filter_conf n conf tmp of
             None \<Rightarrow> None
           | Some ms \<Rightarrow>
               (case send_members n conf as of
                  None \<Rightarrow> None
                | Some ms' \<Rightarrow> Some (ms @ ms'))))"

subsection \<open>What the specification says a chain resolves to\<close>

definition member_msg :: "string \<Rightarrow> imsg" where
  "member_msg a = Imsg IMSG_RECONF_FILTER_NODE 0 0 (- 1) (Some a)"

text \<open>
  The fully flattened, order-preserving, depth-first resolution of a reference
  list down to leaf names, written from the specification: a reference to a leaf
  contributes that name, a reference to a chain contributes the flattening of
  that chain's own reference list, in place.
\<close>

inductive flattens :: "smtpfd_conf \<Rightarrow> string list \<Rightarrow> string list \<Rightarrow> bool"
  for conf :: smtpfd_conf where
  flat_end: "flattens conf [] []"
| flat_leaf: "lookup_filter conf a = Some g \<Longrightarrow> \<not> chain_flag g \<Longrightarrow> flattens conf as ls
     \<Longrightarrow> flattens conf (a # as) (a # ls)"
| flat_chain: "lookup_filter conf a = Some g \<Longrightarrow> chain_flag g \<Longrightarrow> flattens conf (argv g) ms
     \<Longrightarrow> flattens conf as ls \<Longrightarrow> flattens conf (a # as) (ms @ ls)"

code_pred flattens .

definition all_resolve :: "smtpfd_conf \<Rightarrow> bool" where
  "all_resolve conf =
     (\<forall>f \<in> set (filters conf). chain_flag f \<longrightarrow>
        (\<forall>a \<in> set (argv f). lookup_filter conf a \<noteq> None))"

subsection \<open>The reference graph of a configuration\<close>

definition refs :: "smtpfd_conf \<Rightarrow> filter_conf \<Rightarrow> filter_conf \<Rightarrow> bool" where
  "refs conf f g = (chain_flag f \<and> (\<exists>a \<in> set (argv f). lookup_filter conf a = Some g))"

definition ref_graph :: "smtpfd_conf \<Rightarrow> (filter_conf \<times> filter_conf) set" where
  "ref_graph conf = {(f, g). f \<in> set (filters conf) \<and> refs conf f g}"

text \<open>\<open>nested conf f d\<close>: a path of \<open>d\<close> references starts at \<open>f\<close>.\<close>

inductive nested :: "smtpfd_conf \<Rightarrow> filter_conf \<Rightarrow> nat \<Rightarrow> bool"
  for conf :: smtpfd_conf where
  nested_0: "nested conf f 0"
| nested_Suc: "refs conf f g \<Longrightarrow> nested conf g d \<Longrightarrow> nested conf f (Suc d)"

text \<open>The chain nesting depth of an entry: the length of its longest reference path.\<close>

definition nesting_depth :: "smtpfd_conf \<Rightarrow> filter_conf \<Rightarrow> nat \<Rightarrow> bool" where
  "nesting_depth conf f d = (nested conf f d \<and> \<not> nested conf f (Suc d))"

subsection \<open>Effects and the environment\<close>

text \<open>
  The process acts on the world through library and system calls. Each call the
  model follows is one \<open>event\<close> appended to the \<open>trace\<close> of the process state, in
  program order; what the call returns is read from the environment \<open>os\<close>, as a
  function of the whole history up to and including that call. \<open>p_frontend\<close> and
  \<open>p_engine\<close> are the two retained handles.
\<close>

datatype proc = Frontend | Engine

datatype event =
    Compose proc imsg
  | ParseConfig string
  | ConfigClear smtpfd_conf
  | Socketpair
  | Fork
  | Close int
  | Dup2 int int
  | Closefrom int
  | Execvp string "string list"
  | LoopExit
  | SetVerbose "string option"
  | ProcExec proc "string list"
  | ProcEnable proc
  | ProcFree proc
  | Wait
  | ControlCleanup string
  | Daemon
  | Pledge string
  | Stdout string
  | Stderr string
  | Log string

text \<open>
  What \<^verbatim>\<open>wait(&status)\<close> gives in \<^verbatim>\<open>priv_shutdown\<close>: a reaped child (its pid and
  \<^verbatim>\<open>WIFSIGNALED(status)\<close>), or \<^verbatim>\<open>-1\<close> with \<^verbatim>\<open>errno\<close> being \<^verbatim>\<open>EINTR\<close>, \<^verbatim>\<open>ECHILD\<close> or
  anything else.
\<close>

datatype wait_res = Reaped int bool | WaitEINTR | WaitECHILD | WaitError

record os =
  proc_compose_ret :: "event list \<Rightarrow> int"
  parse_config_ret :: "event list \<Rightarrow> smtpfd_conf option"
  socketpair_ret :: "event list \<Rightarrow> (int \<times> int) option"
  fork_ret :: "event list \<Rightarrow> int"
  dup2_ret :: "event list \<Rightarrow> int"
  closefrom_ret :: "event list \<Rightarrow> int"
  execvp_ok :: "event list \<Rightarrow> bool"
  wait_ret :: "event list \<Rightarrow> wait_res"
  proc_exec_ok :: "event list \<Rightarrow> bool"
  pledge_ret :: "event list \<Rightarrow> int"
  proc_getpid_ret :: "proc \<Rightarrow> int"
  cmdline_symset_ret :: "string \<Rightarrow> int"
  geteuid_ret :: int
  getpwnam_ok :: "string \<Rightarrow> bool"

text \<open>
  The globals of smtpfd.c (\<^verbatim>\<open>env\<close>, \<^verbatim>\<open>conffile\<close>, \<^verbatim>\<open>csock\<close>, \<^verbatim>\<open>cmd_opts\<close>), the
  event loop's exit request, and the trace.
\<close>

record priv =
  env :: smtpfd_conf
  conffile :: string
  csock :: string
  cmd_opts :: "32 word"
  loop_exit :: bool
  trace :: "event list"

text \<open>
  How a function ends when it does not return to its caller: \<^verbatim>\<open>fatal\<close>/\<^verbatim>\<open>fatalx\<close>,
  \<^verbatim>\<open>exit(status)\<close>, a successful \<^verbatim>\<open>execvp\<close> (file and argument vector of the new
  image), the process going on as engine or frontend, a store outside \<^verbatim>\<open>rargv\<close>,
  or the event loop waiting with nothing left to deliver.
\<close>

datatype stop =
    Fatal string
  | Exit int
  | Exec string "string list"
  | Role proc
  | OutOfBounds int
  | Waiting

datatype 'a result = Returns 'a priv | Stops stop priv

fun the_state :: "'a result \<Rightarrow> priv" where
  "the_state (Returns x st) = st"
| "the_state (Stops s st) = st"

definition emit :: "event \<Rightarrow> priv \<Rightarrow> priv" where
  "emit e st = st\<lparr>trace := trace st @ [e]\<rparr>"

definition emits :: "event list \<Rightarrow> priv \<Rightarrow> priv" where
  "emits es st = st\<lparr>trace := trace st @ es\<rparr>"

definition proc_compose :: "os \<Rightarrow> proc \<Rightarrow> imsg \<Rightarrow> priv \<Rightarrow> int \<times> priv" where
  "proc_compose os p m st =
     (let st' = emit (Compose p m) st in (proc_compose_ret os (trace st'), st'))"

subsection \<open>priv\_send\_filter\_proc\<close>

text \<open>
  \<^verbatim>\<open>fork()\<close> is followed on both sides: the environment says whether this process
  is the parent (a pid), the child (\<open>0\<close>) or whether the call failed (\<open>-1\<close>).
  \<^verbatim>\<open>execvp(f->argv[0], f->argv+1)\<close>: the file is the first entry and the argument
  vector starts at the second one; \<open>argv\<close> is taken to be followed by a \<^verbatim>\<open>NULL\<close>
  entry, so with no entry at all the file is \<^verbatim>\<open>NULL\<close> and the call fails.
\<close>

definition priv_send_filter_proc :: "os \<Rightarrow> filter_conf \<Rightarrow> priv \<Rightarrow> unit result" where
  "priv_send_filter_proc os f st =
     (let st1 = emit Socketpair st in
      case socketpair_ret os (trace st1) of
        None \<Rightarrow> Stops (Fatal ''socketpair'') st1
      | Some (sp0, sp1) \<Rightarrow>
          (let st2 = emit Fork st1; pid = fork_ret os (trace st2) in
           if pid = - 1 then Stops (Fatal ''fork'') st2
           else if pid \<noteq> 0 then
             (let st3 = emit (Log ''forked filter %s as pid %d'') (emit (Close sp0) st2)
              in Returns () (snd (proc_compose os Engine
                   (Imsg IMSG_RECONF_FILTER_PROC 0 pid sp1 (Some (name f))) st3)))
           else
             (let st3 = emit (Dup2 sp0 3) st2 in
              if dup2_ret os (trace st3) = - 1 then Stops (Fatal ''dup2'') st3
              else
                (let st4 = emit (Closefrom 4) st3 in
                 if closefrom_ret os (trace st4) = - 1 then Stops (Fatal ''closefrom'') st4
                 else
                   (case argv f of
                      [] \<Rightarrow> Stops (Fatal ''proc_exec: execvp: %s'') st4
                    | file # args \<Rightarrow>
                        (let st5 = emit (Execvp file args) st4 in
                         if execvp_ok os (trace st5) then Stops (Exec file args) st5
                         else Stops (Fatal ''proc_exec: execvp: %s'') st5))))))"

subsection \<open>priv\_send\_config\<close>

text \<open>
  In \<open>priv_send_config os n xconf st\<close> and the functions that call it, \<open>n\<close> is the
  bound handed to \<open>priv_send_filter_conf\<close> for each entry, and \<open>None\<close> says that the
  resolution of some entry hit it.

  The first \<^verbatim>\<open>TAILQ_FOREACH\<close>: one filter process per entry that is not a chain.
\<close>

fun spawn_filters :: "os \<Rightarrow> filter_conf list \<Rightarrow> priv \<Rightarrow> unit result" where
  "spawn_filters os [] st = Returns () st"
| "spawn_filters os (f # fs) st =
     (if chain_flag f then spawn_filters os fs st
      else (case priv_send_filter_proc os f st of
              Returns u st' \<Rightarrow> spawn_filters os fs st'
            | Stops s st' \<Rightarrow> Stops s st'))"

text \<open>
  The second \<^verbatim>\<open>TAILQ_FOREACH\<close>: the declaration of every entry, each followed by
  the messages of \<^verbatim>\<open>priv_send_filter_conf\<close> on it. No result of \<^verbatim>\<open>proc_compose\<close>
  is looked at here.
\<close>

fun declare_filters :: "os \<Rightarrow> nat \<Rightarrow> smtpfd_conf \<Rightarrow> filter_conf list \<Rightarrow> priv \<Rightarrow> priv option" where
  "declare_filters os n conf [] st = Some st"
| "declare_filters os n conf (f # fs) st =
     (let st1 = snd (proc_compose os Engine
                  (Imsg IMSG_RECONF_FILTER 0 0 (- 1) (Some (name f))) st)
      in case priv_send_filter_conf n conf f of
           None \<Rightarrow> None
         | Some ms \<Rightarrow>
             declare_filters os n conf fs (emits (map (Compose Engine) ms) st1))"

definition priv_send_config :: "os \<Rightarrow> nat \<Rightarrow> smtpfd_conf \<Rightarrow> priv \<Rightarrow> int result option" where
  "priv_send_config os n xconf st =
     (case proc_compose os Engine (Imsg IMSG_RECONF_CONF 0 0 (- 1) None) st of
        (r, st1) \<Rightarrow>
          if r = - 1 then Some (Returns (- 1) st1)
          else
            (case spawn_filters os (filters xconf) st1 of
               Stops s st2 \<Rightarrow> Some (Stops s st2)
             | Returns u st2 \<Rightarrow>
                 (case declare_filters os n xconf (filters xconf) st2 of
                    None \<Rightarrow> None
                  | Some st3 \<Rightarrow>
                      (case proc_compose os Engine (Imsg IMSG_RECONF_END 0 0 (- 1) None) st3 of
                         (r', st4) \<Rightarrow>
                           if r' = - 1 then Some (Returns (- 1) st4)
                           else Some (Returns 0 st4)))))"

subsection \<open>priv\_reload\<close>

definition priv_reload :: "os \<Rightarrow> nat \<Rightarrow> priv \<Rightarrow> int result option" where
  "priv_reload os n st =
     (let st1 = emit (ParseConfig (conffile st)) st in
      case parse_config_ret os (trace st1) of
        None \<Rightarrow> Some (Returns (- 1) st1)
      | Some xconf \<Rightarrow>
          (case priv_send_config os n xconf st1 of
             None \<Rightarrow> None
           | Some (Stops s st2) \<Rightarrow> Some (Stops s st2)
           | Some (Returns r st2) \<Rightarrow>
               if r = - 1 then Some (Returns (- 1) st2)
               else Some (Returns 0 ((emit (ConfigClear (env st2)) st2)\<lparr>env := xconf\<rparr>))))"

subsection \<open>The dispatch handlers\<close>

text \<open>
  The handler's \<^verbatim>\<open>imsg\<close> argument is \<open>None\<close> for \<^verbatim>\<open>NULL\<close>, which is how a closed channel
  is reported. \<^verbatim>\<open>log_setverbose\<close> gets the \<^verbatim>\<open>int\<close> copied out of the payload; the
  event keeps the payload.
\<close>

definition priv_dispatch_frontend :: "os \<Rightarrow> nat \<Rightarrow> proc \<Rightarrow> imsg option \<Rightarrow> priv \<Rightarrow> unit result option" where
  "priv_dispatch_frontend os n p imsg st =
     (case imsg of
        None \<Rightarrow> Some (Returns () ((emit LoopExit st)\<lparr>loop_exit := True\<rparr>))
      | Some m \<Rightarrow>
          (case imsg_type m of
             IMSG_CTL_RELOAD \<Rightarrow>
               (case priv_reload os n st of
                  None \<Rightarrow> None
                | Some (Stops s st1) \<Rightarrow> Some (Stops s st1)
                | Some (Returns r st1) \<Rightarrow>
                    Some (Returns ()
                      (emit (Log (if r = - 1 then ''configuration reload failed''
                                  else ''configuration reloaded'')) st1)))
           | IMSG_CTL_LOG_VERBOSE \<Rightarrow> Some (Returns () (emit (SetVerbose (imsg_data m)) st))
           | IMSG_CTL_SHOW_MAIN_INFO \<Rightarrow>
               Some (Returns () (snd (proc_compose os p
                 (Imsg IMSG_CTL_END 0 (imsg_pid m) (- 1) None) st)))
           | _ \<Rightarrow> Some (Returns () (emit (Log ''%s: error handling imsg %d'') st))))"

definition priv_dispatch_engine :: "os \<Rightarrow> nat \<Rightarrow> proc \<Rightarrow> imsg option \<Rightarrow> priv \<Rightarrow> unit result option" where
  "priv_dispatch_engine os n p imsg st =
     (case imsg of
        None \<Rightarrow> Some (Returns () ((emit LoopExit st)\<lparr>loop_exit := True\<rparr>))
      | Some m \<Rightarrow> Some (Returns () (emit (Log ''%s: error handling imsg %d'') st)))"

subsection \<open>priv\_shutdown\<close>

text \<open>
  The \<^verbatim>\<open>do ... while\<close> loop around \<^verbatim>\<open>wait\<close>; it goes on for as long as children are
  reaped or the call is interrupted, so the first argument bounds its rounds.
\<close>

fun wait_children :: "os \<Rightarrow> nat \<Rightarrow> int \<Rightarrow> priv \<Rightarrow> unit result option" where
  "wait_children os 0 engine_pid st = None"
| "wait_children os (Suc k) engine_pid st =
     (let st1 = emit Wait st in
      case wait_ret os (trace st1) of
        WaitECHILD \<Rightarrow> Some (Returns () st1)
      | WaitEINTR \<Rightarrow> wait_children os k engine_pid st1
      | WaitError \<Rightarrow> Some (Stops (Fatal ''wait'') st1)
      | Reaped pid signaled \<Rightarrow>
          wait_children os k engine_pid
            (if signaled
             then emit (Log (if pid = engine_pid then ''engine terminated; signal %d''
                             else ''frontend terminated; signal %d'')) st1
             else st1))"

definition priv_shutdown :: "os \<Rightarrow> nat \<Rightarrow> priv \<Rightarrow> unit result option" where
  "priv_shutdown os n st =
     (let frontend_pid = proc_getpid_ret os Frontend;
          engine_pid = proc_getpid_ret os Frontend;
          st1 = emit (Log ''waiting for children to terminate'')
                  (emit (ConfigClear (env st)) (emit (ProcFree Engine) (emit (ProcFree Frontend) st)))
      in case wait_children os n engine_pid st1 of
           None \<Rightarrow> None
         | Some (Stops s st2) \<Rightarrow> Some (Stops s st2)
         | Some (Returns u st2) \<Rightarrow>
             Some (Stops (Exit 0) (emit (Log ''terminating'') (emit (ControlCleanup (csock st2)) st2))))"

subsection \<open>The event loop\<close>

text \<open>
  \<^verbatim>\<open>event_dispatch\<close> belongs to libevent. What smtpfd.c relies on: the loop runs the
  registered callbacks of the events that became active, one iteration after the
  other, and once a callback has called \<^verbatim>\<open>event_loopexit(NULL)\<close> it returns when the
  callbacks of the current iteration are done. An input event here is a message,
  or the closure, of one of the two channels (\<^verbatim>\<open>proc_setcallback\<close> registers
  \<^verbatim>\<open>priv_dispatch_frontend\<close> for \<^verbatim>\<open>p_frontend\<close> and \<^verbatim>\<open>priv_dispatch_engine\<close> for
  \<^verbatim>\<open>p_engine\<close>); signal events are not part of this model. With nothing left to
  deliver and no exit requested the loop keeps waiting.
\<close>

datatype ev = FromFrontend "imsg option" | FromEngine "imsg option"


fun callback :: "os \<Rightarrow> nat \<Rightarrow> ev \<Rightarrow> priv \<Rightarrow> unit result option" where
  "callback os n (FromFrontend imsg) st = priv_dispatch_frontend os n Frontend imsg st"
| "callback os n (FromEngine imsg) st = priv_dispatch_engine os n Engine imsg st"

fun run_callbacks :: "os \<Rightarrow> nat \<Rightarrow> ev list \<Rightarrow> priv \<Rightarrow> unit result option" where
  "run_callbacks os n [] st = Some (Returns () st)"
| "run_callbacks os n (e # es) st =
     (case callback os n e st of
        None \<Rightarrow> None
      | Some (Stops s st') \<Rightarrow> Some (Stops s st')
      | Some (Returns u st') \<Rightarrow> run_callbacks os n es st')"

fun event_dispatch :: "os \<Rightarrow> nat \<Rightarrow> ev list list \<Rightarrow> priv \<Rightarrow> unit result option" where
  "event_dispatch os n [] st =
     (if loop_exit st then Some (Returns () st) else Some (Stops Waiting st))"
| "event_dispatch os n (it # its) st =
     (if loop_exit st then Some (Returns () st)
      else (case run_callbacks os n it st of
              None \<Rightarrow> None
            | Some (Stops s st') \<Rightarrow> Some (Stops s st')
            | Some (Returns u st') \<Rightarrow> event_dispatch os n its st'))"

text \<open>The end of \<^verbatim>\<open>main\<close>: \<^verbatim>\<open>event_dispatch(); priv_shutdown();\<close>\<close>

definition main_loop :: "os \<Rightarrow> nat \<Rightarrow> ev list list \<Rightarrow> priv \<Rightarrow> unit result option" where
  "main_loop os n its st =
     (case event_dispatch os n its st of
        None \<Rightarrow> None
      | Some (Stops s st') \<Rightarrow> Some (Stops s st')
      | Some (Returns u st') \<Rightarrow> priv_shutdown os n st')"

subsection \<open>main\<close>

text \<open>
  \<^verbatim>\<open>main\<close> is followed in four parts, composed at the end. The calls that only set
  up logging, the process title, the callbacks and the signal handlers
  (\<^verbatim>\<open>log_init\<close>, \<^verbatim>\<open>log_setverbose\<close>, \<^verbatim>\<open>log_procinit\<close>, \<^verbatim>\<open>setproctitle\<close>,
  \<^verbatim>\<open>proc_setcallback\<close>, \<^verbatim>\<open>event_init\<close>, \<^verbatim>\<open>signal_set\<close>, \<^verbatim>\<open>signal_add\<close>, \<^verbatim>\<open>signal\<close>)
  leave no event.

  The constants of smtpfd.h that \<^verbatim>\<open>main\<close> uses; their values are not in smtpfd.c,
  so they are parameters.
\<close>

record smtpfd_h =
  CONF_FILE :: string
  SMTPFD_SOCKET :: string
  SMTPFD_USER :: string
  OPT_VERBOSE :: "32 word"
  OPT_VERBOSE2 :: "32 word"
  OPT_NOACTION :: "32 word"

text \<open>The locals of \<^verbatim>\<open>main\<close> that outlive the option loop.\<close>

record main_vars =
  debug :: bool
  engine_flag :: bool
  frontend_flag :: bool
  saved_argv0 :: string
  argc :: int

definition usage :: "priv \<Rightarrow> 'a result" where
  "usage st = Stops (Exit 1) (emit (Stderr ''usage: %s [-dnv] [-f file] [-s socket]\<newline>'') st)"

text \<open>
  The \<^verbatim>\<open>while\<close> loop over \<^verbatim>\<open>getopt(argc, argv, "D:dEFf:ns:v")\<close>: the input is the
  sequence of option characters \<^verbatim>\<open>getopt\<close> returns before \<^verbatim>\<open>-1\<close>, each with its
  \<^verbatim>\<open>optarg\<close>. \<open>getopt_case\<close> is the \<^verbatim>\<open>switch\<close>: it gives the locals and globals after
  the case taken, and \<open>None\<close> for the \<^verbatim>\<open>default\<close> case (any other character, as \<^verbatim>\<open>?\<close>),
  which calls \<^verbatim>\<open>usage\<close>.
\<close>

definition getopt_case ::
  "smtpfd_h \<Rightarrow> os \<Rightarrow> char \<Rightarrow> string \<Rightarrow> main_vars \<Rightarrow> priv \<Rightarrow> (main_vars \<times> priv) option" where
  "getopt_case h os ch optarg v st =
     (if ch = CHR ''D'' then
        Some (v, if cmdline_symset_ret os optarg < 0
                 then emit (Log ''could not parse macro definition %s'') st else st)
      else if ch = CHR ''d'' then Some (v\<lparr>debug := True\<rparr>, st)
      else if ch = CHR ''E'' then Some (v\<lparr>engine_flag := True\<rparr>, st)
      else if ch = CHR ''F'' then Some (v\<lparr>frontend_flag := True\<rparr>, st)
      else if ch = CHR ''f'' then Some (v, st\<lparr>conffile := optarg\<rparr>)
      else if ch = CHR ''n'' then Some (v, st\<lparr>cmd_opts := cmd_opts st OR OPT_NOACTION h\<rparr>)
      else if ch = CHR ''s'' then Some (v, st\<lparr>csock := optarg\<rparr>)
      else if ch = CHR ''v'' then
        Some (v, st\<lparr>cmd_opts :=
                    (if cmd_opts st AND OPT_VERBOSE h \<noteq> 0 then cmd_opts st OR OPT_VERBOSE2 h
                     else cmd_opts st) OR OPT_VERBOSE h\<rparr>)
      else None)"

fun getopt_loop :: "smtpfd_h \<Rightarrow> os \<Rightarrow> (char \<times> string) list \<Rightarrow> main_vars \<Rightarrow> priv \<Rightarrow> main_vars result" where
  "getopt_loop h os [] v st = Returns v st"
| "getopt_loop h os ((ch, optarg) # rest) v st =
     (case getopt_case h os ch optarg v st of
        None \<Rightarrow> usage st
      | Some (v', st') \<Rightarrow> getopt_loop h os rest v' st')"

text \<open>
  Modelled from the spec: \<^verbatim>\<open>engine()\<close> and \<^verbatim>\<open>frontend()\<close> (engine.c and frontend.c are
  not among the sources): with \<^verbatim>\<open>-E\<close> or \<^verbatim>\<open>-F\<close> the invocation runs as the engine or
  frontend role instead of the supervisor, so the call does not come back to \<^verbatim>\<open>main\<close>.
\<close>

definition run_role :: "proc \<Rightarrow> priv \<Rightarrow> 'a result" where
  "run_role p st = Stops (Role p) st"

text \<open>\<^verbatim>\<open>config_print\<close>: one line on standard output per entry.\<close>

definition config_line :: "filter_conf \<Rightarrow> string" where
  "config_line f =
     (if chain_flag f then ''chain'' else ''filter'') @ '' '' @ name f
       @ concat (map (\<lambda>a. '' '' @ a) (argv f)) @ ''\<newline>''"

definition config_print :: "smtpfd_conf \<Rightarrow> priv \<Rightarrow> priv" where
  "config_print conf st = emits (map (\<lambda>f. Stdout (config_line f)) (filters conf)) st"

text \<open>
  \<^verbatim>\<open>main\<close> up to the \<^verbatim>\<open>-n\<close> exit (lines 127 to 193). \<open>argv0\<close> is \<^verbatim>\<open>argv[0]\<close>, \<open>opts\<close>
  what \<^verbatim>\<open>getopt\<close> returns and \<open>nargs\<close> the value of \<^verbatim>\<open>argc - optind\<close>.
\<close>

definition main_options ::
  "smtpfd_h \<Rightarrow> os \<Rightarrow> string option \<Rightarrow> (char \<times> string) list \<Rightarrow> int \<Rightarrow> priv \<Rightarrow> main_vars result" where
  "main_options h os argv0 opts nargs st0 =
     (case getopt_loop h os opts
             \<lparr>debug = False, engine_flag = False, frontend_flag = False,
              saved_argv0 = (case argv0 of None \<Rightarrow> ''smtpfd'' | Some a \<Rightarrow> a), argc = nargs\<rparr>
             (st0\<lparr>conffile := CONF_FILE h, csock := SMTPFD_SOCKET h\<rparr>) of
        Stops s st \<Rightarrow> Stops s st
      | Returns v st \<Rightarrow>
          if argc v > 0 \<or> (engine_flag v \<and> frontend_flag v) then usage st
          else if engine_flag v then run_role Engine st
          else if frontend_flag v then run_role Frontend st
          else
            (let st1 = emit (ParseConfig (conffile st)) st in
             case parse_config_ret os (trace st1) of
               None \<Rightarrow> Stops (Exit 1) st1
             | Some c \<Rightarrow>
                 (let st2 = st1\<lparr>env := c\<rparr> in
                  if cmd_opts st2 AND OPT_NOACTION h \<noteq> 0 then
                    (if cmd_opts st2 AND OPT_VERBOSE h \<noteq> 0
                     then Stops (Exit 0) (config_print (env st2) st2)
                     else Stops (Exit 0) (emit (Stderr ''configuration OK\<newline>'') st2))
                  else Returns v st2)))"

text \<open>
  \<^verbatim>\<open>char *rargv[7]\<close>: a store at index \<open>i\<close> is inside the array for \<open>0 \<le> i < 7\<close>; any
  other store ends the run as \<open>OutOfBounds i\<close>. \<open>None\<close> is \<^verbatim>\<open>NULL\<close>.
\<close>

definition rargv_store :: "string option list \<Rightarrow> int \<Rightarrow> string option \<Rightarrow> int + string option list" where
  "rargv_store a i x = (if 0 \<le> i \<and> i < int (length a) then Inr (a[nat i := x]) else Inl i)"

text \<open>The stores \<^verbatim>\<open>rargv[rargc++] = x\<close>, in order, from the given \<^verbatim>\<open>rargc\<close>.\<close>

fun rargv_push :: "string option list \<Rightarrow> int \<Rightarrow> string option list \<Rightarrow> int + (string option list \<times> int)" where
  "rargv_push a rargc [] = Inr (a, rargc)"
| "rargv_push a rargc (x # xs) =
     (case rargv_store a rargc x of
        Inl i \<Rightarrow> Inl i
      | Inr a' \<Rightarrow> rargv_push a' (rargc + 1) xs)"

text \<open>The argument vector a callee reads from \<^verbatim>\<open>rargv\<close>: the entries before the first \<^verbatim>\<open>NULL\<close>.\<close>

definition c_args :: "string option list \<Rightarrow> string list" where
  "c_args a = map the (takeWhile (\<lambda>x. x \<noteq> None) a)"

text \<open>
  \<^verbatim>\<open>proc_exec\<close> is in proc.c, which is not among the sources; the environment says
  whether the spawn succeeded, and a failed spawn is fatal.
\<close>

definition proc_exec :: "os \<Rightarrow> proc \<Rightarrow> string option list \<Rightarrow> priv \<Rightarrow> unit result" where
  "proc_exec os p a st =
     (let st1 = emit (ProcExec p (c_args a)) st in
      if proc_exec_ok os (trace st1) then Returns () st1 else Stops (Fatal ''proc_exec'') st1)"

text \<open>
  The values that lines 214 to 222 store at \<^verbatim>\<open>rargv[rargc++]\<close>, in order: \<^verbatim>\<open>-d\<close> with
  \<^verbatim>\<open>debug\<close>, \<^verbatim>\<open>-v\<close> with \<^verbatim>\<open>cmd_opts & OPT_VERBOSE\<close>, and the closing \<^verbatim>\<open>NULL\<close>.
\<close>

definition frontend_args :: "string \<Rightarrow> bool \<Rightarrow> bool \<Rightarrow> string \<Rightarrow> string option list" where
  "frontend_args argv0 d vb sock =
     [Some argv0, Some ''-F''] @ (if d then [Some ''-d''] else [])
       @ (if vb then [Some ''-v''] else []) @ [Some ''-s'', Some sock, None]"

text \<open>
  \<^verbatim>\<open>main\<close> from the privilege check to the second \<^verbatim>\<open>proc_exec\<close> (lines 195 to 229).
  The cells of \<^verbatim>\<open>rargv\<close> start as \<open>None\<close>; none is read before the store of line 222.
\<close>

definition main_spawn :: "smtpfd_h \<Rightarrow> os \<Rightarrow> main_vars \<Rightarrow> priv \<Rightarrow> unit result" where
  "main_spawn h os v st =
     (if geteuid_ret os \<noteq> 0 then Stops (Fatal ''need root privileges'') st
      else if \<not> getpwnam_ok os (SMTPFD_USER h) then Stops (Fatal ''unknown user %s'') st
      else
        (let st1 = emit (Log ''startup'') (if \<not> debug v then emit Daemon st else st) in
         case rargv_push (replicate 7 None) 0
                (frontend_args (saved_argv0 v) (debug v) (cmd_opts st1 AND OPT_VERBOSE h \<noteq> 0)
                   (csock st1)) of
           Inl i \<Rightarrow> Stops (OutOfBounds i) st1
         | Inr (rargv, rargc) \<Rightarrow>
             (case proc_exec os Frontend rargv st1 of
                Stops s st2 \<Rightarrow> Stops s st2
              | Returns u st2 \<Rightarrow>
                  (case rargv_store rargv 1 (Some ''-E'') of
                     Inl i \<Rightarrow> Stops (OutOfBounds i) st2
                   | Inr rargv1 \<Rightarrow>
                       (case rargv_store rargv1 (argc v - 3) None of
                          Inl i \<Rightarrow> Stops (OutOfBounds i) st2
                        | Inr rargv2 \<Rightarrow> proc_exec os Engine rargv2 st2)))))"

text \<open>
  \<^verbatim>\<open>main\<close> from \<^verbatim>\<open>event_init\<close> to \<^verbatim>\<open>pledge\<close> (lines 231 to 262); registering the signal
  handlers leaves no event. What \<^verbatim>\<open>priv_send_config(env)\<close> returns is not looked at.
\<close>

definition main_run :: "os \<Rightarrow> nat \<Rightarrow> priv \<Rightarrow> unit result option" where
  "main_run os n st =
     (let st1 = emit Socketpair (emit (ProcEnable Engine) (emit (ProcEnable Frontend) st)) in
      case socketpair_ret os (trace st1) of
        None \<Rightarrow> Some (Stops (Fatal ''socketpair'') st1)
      | Some (sp0, sp1) \<Rightarrow>
          (case proc_compose os Frontend (Imsg IMSG_SOCKET_IPC 0 0 sp0 None) st1 of
             (r, st2) \<Rightarrow>
               if r = - 1 then Some (Stops (Fatal ''proc_compose'') st2)
               else
                 (case proc_compose os Engine (Imsg IMSG_SOCKET_IPC 0 0 sp1 None) st2 of
                    (r', st3) \<Rightarrow>
                      if r' = - 1 then Some (Stops (Fatal ''proc_compose'') st3)
                      else
                        (case priv_send_config os n (env st3) st3 of
                           None \<Rightarrow> None
                         | Some (Stops s st4) \<Rightarrow> Some (Stops s st4)
                         | Some (Returns r'' st4) \<Rightarrow>
                             (let st5 = emit (Pledge ''rpath stdio sendfd cpath'') st4 in
                              if pledge_ret os (trace st5) = - 1
                              then Some (Stops (Fatal ''pledge'') st5)
                              else Some (Returns () st5))))))"

text \<open>The state \<^verbatim>\<open>main\<close> starts from: zeroed globals, nothing done yet.\<close>

definition priv0 :: priv where
  "priv0 = \<lparr>env = \<lparr>filters = []\<rparr>, conffile = [], csock = [], cmd_opts = 0,
            loop_exit = False, trace = []\<rparr>"

definition main ::
  "smtpfd_h \<Rightarrow> os \<Rightarrow> nat \<Rightarrow> string option \<Rightarrow> (char \<times> string) list \<Rightarrow> int \<Rightarrow> ev list list
     \<Rightarrow> unit result option" where
  "main h os n argv0 opts nargs its =
     (case main_options h os argv0 opts nargs priv0 of
        Stops s st \<Rightarrow> Some (Stops s st)
      | Returns v st \<Rightarrow>
          (case main_spawn h os v st of
             Stops s st1 \<Rightarrow> Some (Stops s st1)
           | Returns u st1 \<Rightarrow>
               (case main_run os n st1 of
                  None \<Rightarrow> None
                | Some (Stops s st2) \<Rightarrow> Some (Stops s st2)
                | Some (Returns u' st2) \<Rightarrow> main_loop os n its st2)))"

subsection \<open>Reading a trace\<close>

text \<open>The messages composed for the engine, in order, and the names a kind of message carries.\<close>

fun engine_msg :: "event \<Rightarrow> imsg option" where
  "engine_msg (Compose Engine m) = Some m"
| "engine_msg e = None"

fun to_engine :: "event list \<Rightarrow> imsg list" where
  "to_engine [] = []"
| "to_engine (e # es) = (case engine_msg e of None \<Rightarrow> to_engine es | Some m \<Rightarrow> m # to_engine es)"

definition names_of :: "imsg_type \<Rightarrow> event list \<Rightarrow> string option list" where
  "names_of t tr = map imsg_data (filter (\<lambda>m. imsg_type m = t) (to_engine tr))"

definition imsg_label :: "imsg \<Rightarrow> imsg_type \<times> string option" where
  "imsg_label m = (imsg_type m, imsg_data m)"

text \<open>The entries of a configuration that are not chains.\<close>

definition leaves :: "filter_conf list \<Rightarrow> filter_conf list" where
  "leaves fs = filter (\<lambda>f. \<not> chain_flag f) fs"

text \<open>The messages of the second loop: each declaration followed by the resolved members.\<close>

definition declarations :: "nat \<Rightarrow> smtpfd_conf \<Rightarrow> filter_conf list \<Rightarrow> imsg list" where
  "declarations n conf fs =
     concat (map (\<lambda>f. Imsg IMSG_RECONF_FILTER 0 0 (- 1) (Some (name f))
                        # the (priv_send_filter_conf n conf f)) fs)"

subsection \<open>Example configurations and environments\<close>

definition virus :: filter_conf where
  "virus = \<lparr>name = ''virus'', chain_flag = False, argv = [''clamfilter'']\<rparr>"

definition all_chain :: filter_conf where
  "all_chain = \<lparr>name = ''all'', chain_flag = True, argv = [''virus'']\<rparr>"

definition conf_virus_all :: smtpfd_conf where
  "conf_virus_all = \<lparr>filters = [virus, all_chain]\<rparr>"

text \<open>A chain with a reference to a name that no entry has.\<close>

definition ghost_chain :: filter_conf where
  "ghost_chain = \<lparr>name = ''all'', chain_flag = True, argv = [''ghost'', ''virus'']\<rparr>"

definition conf_ghost :: smtpfd_conf where
  "conf_ghost = \<lparr>filters = [virus, ghost_chain]\<rparr>"

text \<open>The chain \<open>X\<close> over \<open>[A, B]\<close>, where \<open>B\<close> is a chain over \<open>[C, D]\<close>.\<close>

definition leaf :: "string \<Rightarrow> filter_conf" where
  "leaf a = \<lparr>name = a, chain_flag = False, argv = [''/bin/'' @ a]\<rparr>"

definition chain_B :: filter_conf where
  "chain_B = \<lparr>name = ''B'', chain_flag = True, argv = [''C'', ''D'']\<rparr>"

definition chain_X :: filter_conf where
  "chain_X = \<lparr>name = ''X'', chain_flag = True, argv = [''A'', ''B'']\<rparr>"

definition conf_nested :: smtpfd_conf where
  "conf_nested = \<lparr>filters = [leaf ''A'', leaf ''C'', leaf ''D'', chain_B, chain_X]\<rparr>"

text \<open>A chain that names itself.\<close>

definition self_chain :: filter_conf where
  "self_chain = \<lparr>name = ''a'', chain_flag = True, argv = [''a'']\<rparr>"

definition conf_cyclic :: smtpfd_conf where
  "conf_cyclic = \<lparr>filters = [self_chain]\<rparr>"

text \<open>Two chains that name each other, next to a leaf; every reference resolves.\<close>

definition chain_p :: filter_conf where
  "chain_p = \<lparr>name = ''p'', chain_flag = True, argv = [''x'', ''q'']\<rparr>"

definition chain_q :: filter_conf where
  "chain_q = \<lparr>name = ''q'', chain_flag = True, argv = [''p'']\<rparr>"

definition conf_mutual :: smtpfd_conf where
  "conf_mutual = \<lparr>filters = [leaf ''x'', chain_p, chain_q]\<rparr>"

text \<open>
  An environment in which every call succeeds and this process is the parent of
  every \<^verbatim>\<open>fork\<close>; one in which \<^verbatim>\<open>proc_compose\<close> fails; one in which this process is
  the child of the \<^verbatim>\<open>fork\<close>.
\<close>

definition os_ok :: os where
  "os_ok = \<lparr>proc_compose_ret = (\<lambda>h. 0), parse_config_ret = (\<lambda>h. Some conf_virus_all),
            socketpair_ret = (\<lambda>h. Some (5, 6)), fork_ret = (\<lambda>h. 100), dup2_ret = (\<lambda>h. 3),
            closefrom_ret = (\<lambda>h. 0), execvp_ok = (\<lambda>h. True), wait_ret = (\<lambda>h. WaitECHILD),
            proc_exec_ok = (\<lambda>h. True), pledge_ret = (\<lambda>h. 0), proc_getpid_ret = (\<lambda>p. 7),
            cmdline_symset_ret = (\<lambda>s. 0), geteuid_ret = 0, getpwnam_ok = (\<lambda>u. True)\<rparr>"

definition os_compose_fails :: os where
  "os_compose_fails = os_ok\<lparr>proc_compose_ret := (\<lambda>h. - 1)\<rparr>"

definition os_child :: os where
  "os_child = os_ok\<lparr>fork_ret := (\<lambda>h. 0)\<rparr>"

definition os_noparse :: os where
  "os_noparse = os_ok\<lparr>parse_config_ret := (\<lambda>h. None)\<rparr>"

definition h0 :: smtpfd_h where
  "h0 = \<lparr>CONF_FILE = ''/etc/mail/smtpfd.conf'', SMTPFD_SOCKET = ''/var/run/smtpfd.sock'',
         SMTPFD_USER = ''_smtpfd'', OPT_VERBOSE = 1, OPT_VERBOSE2 = 2, OPT_NOACTION = 4\<rparr>"

section \<open>Properties of the chain resolver\<close>

lemma lookup_filter_name: "lookup_filter conf a = Some g \<Longrightarrow> name g = a"
  by (auto simp: lookup_filter_def find_Some_iff)

lemma lookup_filter_mem: "lookup_filter conf a = Some g \<Longrightarrow> g \<in> set (filters conf)"
  by (auto simp: lookup_filter_def find_Some_iff)

lemma lookup_filter_None: "lookup_filter conf a = None \<longleftrightarrow> a \<notin> name ` set (filters conf)"
  by (auto simp: lookup_filter_def find_None_iff)

lemma send_members_append:
  "send_members n conf (xs @ ys) =
     (case send_members n conf xs of
        None \<Rightarrow> None
      | Some ms \<Rightarrow> (case send_members n conf ys of None \<Rightarrow> None | Some ms' \<Rightarrow> Some (ms @ ms')))"
  by (induction xs) (auto split: option.splits)

lemma send_members_None:
  "send_members n conf as = None \<longleftrightarrow>
     (\<exists>a \<in> set as. \<exists>g. lookup_filter conf a = Some g \<and> priv_send_filter_conf n conf g = None)"
  by (induction as) (auto split: option.splits)

lemma nested_Suc_iff: "nested conf f (Suc d) \<longleftrightarrow> (\<exists>g. refs conf f g \<and> nested conf g d)"
  by (auto elim: nested.cases intro: nested.intros)

lemma fuel_exhausted_iff: "priv_send_filter_conf n conf f = None \<longleftrightarrow> nested conf f n"
proof (induction n arbitrary: f)
  case 0
  show ?case by (simp add: nested_0)
next
  case (Suc n)
  show ?case
    by (auto simp: send_members_None nested_Suc_iff refs_def Suc)
qed

lemma fuel_Suc:
  "priv_send_filter_conf n conf f = Some ms \<Longrightarrow> priv_send_filter_conf (Suc n) conf f = Some ms"
  "send_members n conf as = Some ms' \<Longrightarrow> send_members (Suc n) conf as = Some ms'"
proof (induction n conf f and n conf as arbitrary: ms and ms'
    rule: priv_send_filter_conf_send_members.induct)
  case (1 conf f)
  then show ?case by simp
next
  case (2 n conf f)
  then show ?case by (simp split: if_splits)
next
  case (3 n conf)
  then show ?case by simp
next
  case (4 n conf a as)
  show ?case
  proof (cases "lookup_filter conf a")
    case None
    with 4 show ?thesis by simp
  next
    case (Some tmp)
    from "4.prems" Some obtain m1 m2 where
      m1: "priv_send_filter_conf n conf tmp = Some m1" and
      m2: "send_members n conf as = Some m2" and
      ms': "ms' = m1 @ m2"
      by (auto split: option.splits)
    from "4.IH"(2)[OF Some m1] have "priv_send_filter_conf (Suc n) conf tmp = Some m1" .
    moreover from "4.IH"(3)[OF Some m1 m2] have "send_members (Suc n) conf as = Some m2" .
    ultimately show ?thesis
      using Some ms' by simp
  qed
qed

lemma filter_conf_fuel_mono:
  assumes "priv_send_filter_conf n conf f = Some ms" and "n \<le> m"
  shows "priv_send_filter_conf m conf f = Some ms"
proof -
  have "priv_send_filter_conf (n + k) conf f = Some ms" for k
  proof (induction k)
    case 0
    show ?case using assms(1) by simp
  next
    case (Suc k)
    from fuel_Suc(1)[OF Suc] show ?case by (simp only: add_Suc_right)
  qed
  from this[of "m - n"] assms(2) show ?thesis by simp
qed

lemma send_members_fuel_mono:
  assumes "send_members n conf as = Some ms" and "n \<le> m"
  shows "send_members m conf as = Some ms"
proof -
  have "send_members (n + k) conf as = Some ms" for k
  proof (induction k)
    case 0
    show ?case using assms(1) by simp
  next
    case (Suc k)
    from fuel_Suc(2)[OF Suc] show ?case by (simp only: add_Suc_right)
  qed
  from this[of "m - n"] assms(2) show ?thesis by simp
qed

lemma flattens_delivered:
  "flattens conf as ls \<Longrightarrow> \<exists>n. send_members n conf as = Some (map member_msg ls)"
proof (induction rule: flattens.induct)
  case flat_end
  show ?case by simp
next
  case (flat_leaf a g as ls)
  then obtain n where n: "send_members n conf as = Some (map member_msg ls)" by blast
  have "priv_send_filter_conf (Suc n) conf g = Some [member_msg a]"
    using flat_leaf.hyps lookup_filter_name[of conf a g] by (simp add: member_msg_def)
  moreover have "send_members (Suc n) conf as = Some (map member_msg ls)"
    using n by (rule send_members_fuel_mono) simp
  ultimately have "send_members (Suc n) conf (a # as) = Some (map member_msg (a # ls))"
    using flat_leaf.hyps by simp
  then show ?case by blast
next
  case (flat_chain a g ms as ls)
  then obtain n1 n2 where
    n1: "send_members n1 conf (argv g) = Some (map member_msg ms)" and
    n2: "send_members n2 conf as = Some (map member_msg ls)" by blast
  let ?n = "Suc (max n1 n2)"
  have "send_members (max n1 n2) conf (argv g) = Some (map member_msg ms)"
    using n1 by (rule send_members_fuel_mono) simp
  then have "priv_send_filter_conf ?n conf g = Some (map member_msg ms)"
    using flat_chain.hyps by simp
  moreover have "send_members ?n conf as = Some (map member_msg ls)"
    using n2 by (rule send_members_fuel_mono) simp
  ultimately have "send_members ?n conf (a # as) = Some (map member_msg (ms @ ls))"
    using flat_chain.hyps by simp
  then show ?case by blast
qed

lemma delivered_flattens:
  assumes "all_resolve conf"
  shows "priv_send_filter_conf n conf f = Some ms \<Longrightarrow> f \<in> set (filters conf) \<Longrightarrow> chain_flag f
            \<Longrightarrow> \<exists>ls. flattens conf (argv f) ls \<and> ms = map member_msg ls"
    and "send_members n conf as = Some ms' \<Longrightarrow> \<forall>a \<in> set as. lookup_filter conf a \<noteq> None
            \<Longrightarrow> \<exists>ls. flattens conf as ls \<and> ms' = map member_msg ls"
  using assms
proof (induction n conf f and n conf as arbitrary: ms and ms'
    rule: priv_send_filter_conf_send_members.induct)
  case (1 conf f)
  then show ?case by simp
next
  case (2 n conf f)
  from "2.prems" have "send_members n conf (argv f) = Some ms" by simp
  moreover from "2.prems" have "\<forall>a \<in> set (argv f). lookup_filter conf a \<noteq> None"
    by (auto simp: all_resolve_def)
  ultimately show ?case
    using "2.IH" "2.prems" by blast
next
  case (3 n conf)
  then show ?case by (auto intro: flat_end)
next
  case (4 n conf a as)
  from "4.prems" obtain tmp where tmp: "lookup_filter conf a = Some tmp" by auto
  from "4.prems" tmp obtain m1 m2 where
    m1: "priv_send_filter_conf n conf tmp = Some m1" and
    m2: "send_members n conf as = Some m2" and
    ms': "ms' = m1 @ m2"
    by (auto split: option.splits)
  from "4.IH"(3)[OF tmp m1 m2] "4.prems" obtain ls where
    ls: "flattens conf as ls" "m2 = map member_msg ls" by auto
  show ?case
  proof (cases "chain_flag tmp")
    case True
    from "4.IH"(2)[OF tmp m1 lookup_filter_mem[OF tmp] True] "4.prems" obtain ks where
      ks: "flattens conf (argv tmp) ks" "m1 = map member_msg ks" by blast
    have "flattens conf (a # as) (ks @ ls)"
      using tmp True ks(1) ls(1) by (rule flat_chain)
    then show ?thesis using ks(2) ls(2) ms' by auto
  next
    case False
    have "m1 = [member_msg a]"
    proof (cases n)
      case 0
      with m1 show ?thesis by simp
    next
      case (Suc k)
      with m1 False lookup_filter_name[OF tmp] show ?thesis by (simp add: member_msg_def)
    qed
    moreover have "flattens conf (a # as) (a # ls)"
      using tmp False ls(1) by (rule flat_leaf)
    ultimately show ?thesis using ls(2) ms' by auto
  qed
qed

lemma nested_antimono:
  assumes "nested conf f m" and "n \<le> m"
  shows "nested conf f n"
proof (rule ccontr)
  assume "\<not> nested conf f n"
  then obtain ms where "priv_send_filter_conf n conf f = Some ms"
    by (auto simp: fuel_exhausted_iff[symmetric])
  then have "priv_send_filter_conf m conf f = Some ms"
    using assms(2) by (rule filter_conf_fuel_mono)
  with assms(1) show False
    by (simp add: fuel_exhausted_iff[symmetric])
qed

lemma ref_graph_subset: "ref_graph conf \<subseteq> set (filters conf) \<times> set (filters conf)"
  by (auto simp: ref_graph_def refs_def dest: lookup_filter_mem)

lemma finite_ref_graph: "finite (ref_graph conf)"
  by (rule finite_subset[OF ref_graph_subset]) simp

lemma acyclic_bounded:
  assumes ac: "acyclic (ref_graph conf)"
  shows "f \<in> set (filters conf) \<Longrightarrow> \<exists>N. \<not> nested conf f N"
proof (induction f rule: wf_induct_rule[OF finite_acyclic_wf_converse[OF finite_ref_graph ac]])
  case (1 x)
  let ?S = "{y. (x, y) \<in> ref_graph conf}"
  have finS: "finite ?S"
    by (rule finite_subset[of _ "set (filters conf)"]) (use ref_graph_subset in auto)
  have "\<forall>y \<in> ?S. \<exists>N. \<not> nested conf y N"
  proof
    fix y assume y: "y \<in> ?S"
    then have "(y, x) \<in> (ref_graph conf)\<inverse>" by simp
    moreover from y ref_graph_subset have "y \<in> set (filters conf)" by auto
    ultimately show "\<exists>N. \<not> nested conf y N" by (rule "1.IH")
  qed
  then obtain bound where bound: "\<forall>y \<in> ?S. \<not> nested conf y (bound y)"
    by metis
  define M where "M = Max (insert 0 (bound ` ?S))"
  have le: "bound y \<le> M" if "y \<in> ?S" for y
    unfolding M_def using finS that by (intro Max_ge) auto
  have "\<not> nested conf x (Suc M)"
  proof
    assume "nested conf x (Suc M)"
    then obtain g where g: "refs conf x g" "nested conf g M"
      by (auto simp: nested_Suc_iff)
    from g(1) "1.prems" have "g \<in> ?S" by (simp add: ref_graph_def)
    with bound le have "\<not> nested conf g (bound g)" "bound g \<le> M" by auto
    with g(2) show False by (blast intro: nested_antimono)
  qed
  then show ?case by blast
qed

lemma depth_exists:
  assumes "\<not> nested conf f N"
  shows "\<exists>d. nesting_depth conf f d"
proof -
  define k where "k = (LEAST n. \<not> nested conf f n)"
  have k: "\<not> nested conf f k"
    unfolding k_def using assms by (rule LeastI)
  have "k \<noteq> 0" using k nested_0[of conf f] by (cases k) auto
  then obtain d where d: "k = Suc d" by (cases k) auto
  have "d < k" using d by simp
  then have "nested conf f d"
    unfolding k_def using not_less_Least by blast
  with k d show ?thesis by (auto simp: nesting_depth_def)
qed

lemma nested_along_path:
  "(f, g) \<in> (ref_graph conf)\<^sup>+ \<Longrightarrow> nested conf g d \<Longrightarrow> \<exists>k. nested conf f (Suc (d + k))"
proof (induction arbitrary: d rule: converse_trancl_induct)
  case (base y)
  then have "nested conf y (Suc d)"
    by (auto simp: ref_graph_def intro: nested_Suc)
  then show ?case by (metis add_0_right)
next
  case (step y z)
  then obtain k where "nested conf z (Suc (d + k))" by blast
  with step.hyps(1) have "nested conf y (Suc (Suc (d + k)))"
    by (auto simp: ref_graph_def intro: nested_Suc)
  then show ?case by (metis add_Suc_right)
qed

lemma cycle_unbounded:
  assumes "(f, f) \<in> (ref_graph conf)\<^sup>+"
  shows "nested conf f n"
proof (induction n)
  case 0
  show ?case by (rule nested_0)
next
  case (Suc n)
  from nested_along_path[OF assms Suc] obtain k where "nested conf f (Suc (n + k))" ..
  then show ?case by (rule nested_antimono) simp
qed

section \<open>Properties of the distribution\<close>

lemma emit_emits: "emit e st = emits [e] st"
  by (simp add: emit_def emits_def)

lemma emits_emits: "emits b (emits a st) = emits (a @ b) st"
  by (simp add: emits_def)

lemma emits_Nil: "emits [] st = st"
  by (simp add: emits_def)

lemma emits_fields:
  "trace (emits a st) = trace st @ a"
  "env (emits a st) = env st"
  "conffile (emits a st) = conffile st"
  "csock (emits a st) = csock st"
  "cmd_opts (emits a st) = cmd_opts st"
  "loop_exit (emits a st) = loop_exit st"
  by (simp_all add: emits_def)

lemma emits_inject: "emits a st = emits b st \<longleftrightarrow> a = b"
proof
  assume "emits a st = emits b st"
  then have "trace (emits a st) = trace (emits b st)" by simp
  then show "a = b" by (simp add: emits_fields)
qed simp

lemma proc_compose_eq:
  "proc_compose os p m st = (proc_compose_ret os (trace st @ [Compose p m]), emits [Compose p m] st)"
  by (simp add: proc_compose_def Let_def emit_emits emits_fields)

lemma to_engine_append: "to_engine (a @ b) = to_engine a @ to_engine b"
  by (induction a) (simp_all split: option.splits)

lemma to_engine_Compose: "to_engine (map (Compose Engine) ms) = ms"
  by (induction ms) simp_all

lemma no_Socketpair_in_Compose: "filter ((=) Socketpair) (map (Compose Engine) ms) = []"
  by (induction ms) simp_all

lemma no_Fork_in_Compose: "filter ((=) Fork) (map (Compose Engine) ms) = []"
  by (induction ms) simp_all

text \<open>What one call of the spawner leaves behind when it returns (in the parent).\<close>

lemma priv_send_filter_proc_Returns:
  assumes "priv_send_filter_proc os f st = Returns u st'"
  shows "\<exists>sp0 sp1 pid. st' = emits [Socketpair, Fork, Close sp0, Log ''forked filter %s as pid %d'',
            Compose Engine (Imsg IMSG_RECONF_FILTER_PROC 0 pid sp1 (Some (name f)))] st"
  using assms
  by (auto simp: priv_send_filter_proc_def Let_def proc_compose_eq emit_emits emits_emits
      split: option.splits prod.splits if_splits list.splits)

lemma priv_send_filter_proc_parent:
  assumes "socketpair_ret os (trace st @ [Socketpair]) \<noteq> None"
    and "fork_ret os (trace st @ [Socketpair, Fork]) \<noteq> - 1"
    and "fork_ret os (trace st @ [Socketpair, Fork]) \<noteq> 0"
  shows "\<exists>st'. priv_send_filter_proc os f st = Returns () st'"
  using assms
  by (auto simp: priv_send_filter_proc_def Let_def emit_emits emits_emits emits_fields
      split: option.splits prod.splits)

lemma spawn_filters_Returns:
  "spawn_filters os fs st = Returns u st' \<Longrightarrow>
     \<exists>new. st' = emits new st
       \<and> map imsg_label (to_engine new)
           = map (\<lambda>f. (IMSG_RECONF_FILTER_PROC, Some (name f))) (leaves fs)
       \<and> length (filter ((=) Socketpair) new) = length (leaves fs)
       \<and> length (filter ((=) Fork) new) = length (leaves fs)"
proof (induction fs arbitrary: st)
  case Nil
  then have "st' = emits [] st" by (simp add: emits_Nil)
  then show ?case by (auto simp: leaves_def)
next
  case (Cons f fs)
  show ?case
  proof (cases "chain_flag f")
    case True
    with Cons.prems have "spawn_filters os fs st = Returns u st'" by simp
    from Cons.IH[OF this] True show ?thesis by (simp add: leaves_def)
  next
    case False
    with Cons.prems obtain st1 where
      one: "priv_send_filter_proc os f st = Returns () st1" and
      rest: "spawn_filters os fs st1 = Returns u st'"
      by (auto split: result.splits)
    from priv_send_filter_proc_Returns[OF one] obtain sp0 sp1 pid where
      st1: "st1 = emits [Socketpair, Fork, Close sp0, Log ''forked filter %s as pid %d'',
            Compose Engine (Imsg IMSG_RECONF_FILTER_PROC 0 pid sp1 (Some (name f)))] st"
      by blast
    from Cons.IH[OF rest] obtain new where
      new: "st' = emits new st1"
        "map imsg_label (to_engine new)
           = map (\<lambda>f. (IMSG_RECONF_FILTER_PROC, Some (name f))) (leaves fs)"
        "length (filter ((=) Socketpair) new) = length (leaves fs)"
        "length (filter ((=) Fork) new) = length (leaves fs)"
      by blast
    let ?one = "[Socketpair, Fork, Close sp0, Log ''forked filter %s as pid %d'',
            Compose Engine (Imsg IMSG_RECONF_FILTER_PROC 0 pid sp1 (Some (name f)))]"
    have "st' = emits (?one @ new) st"
      using new(1) st1 by (simp only: emits_emits)
    moreover have "map imsg_label (to_engine (?one @ new))
           = map (\<lambda>f. (IMSG_RECONF_FILTER_PROC, Some (name f))) (leaves (f # fs))"
      using new(2) False
      by (simp add: to_engine_append imsg_label_def leaves_def)
    moreover have "length (filter ((=) Socketpair) (?one @ new)) = length (leaves (f # fs))"
      using new(3) False by (simp add: leaves_def)
    moreover have "length (filter ((=) Fork) (?one @ new)) = length (leaves (f # fs))"
      using new(4) False by (simp add: leaves_def)
    ultimately show ?thesis by blast
  qed
qed

lemma spawn_filters_parent:
  assumes "\<forall>h. socketpair_ret os h \<noteq> None \<and> fork_ret os h \<noteq> - 1 \<and> fork_ret os h \<noteq> 0"
  shows "\<exists>st'. spawn_filters os fs st = Returns () st'"
proof (induction fs arbitrary: st)
  case Nil
  show ?case by simp
next
  case (Cons f fs)
  from assms obtain st1 where "priv_send_filter_proc os f st = Returns () st1"
    using priv_send_filter_proc_parent[of os st f] by blast
  with Cons[of st] Cons[of st1] show ?case by simp
qed

lemma declare_filters_eq:
  "declare_filters os n conf fs st =
     (if \<forall>f \<in> set fs. priv_send_filter_conf n conf f \<noteq> None
      then Some (emits (map (Compose Engine) (declarations n conf fs)) st) else None)"
proof (induction fs arbitrary: st)
  case Nil
  show ?case by (simp add: declarations_def emits_Nil)
next
  case (Cons f fs)
  show ?case
  proof (cases "priv_send_filter_conf n conf f")
    case None
    then show ?thesis by simp
  next
    case (Some ms)
    have "declarations n conf (f # fs)
        = Imsg IMSG_RECONF_FILTER 0 0 (- 1) (Some (name f)) # ms @ declarations n conf fs"
      using Some by (simp add: declarations_def)
    with Some Cons[of "emits (map (Compose Engine) ms)
        (emits [Compose Engine (Imsg IMSG_RECONF_FILTER 0 0 (- 1) (Some (name f)))] st)"]
    show ?thesis
      by (simp add: proc_compose_eq emits_emits)
  qed
qed

lemma members_are_nodes:
  "priv_send_filter_conf n conf f = Some ms \<Longrightarrow> \<forall>m \<in> set ms. imsg_type m = IMSG_RECONF_FILTER_NODE"
  "send_members n conf as = Some ms' \<Longrightarrow> \<forall>m \<in> set ms'. imsg_type m = IMSG_RECONF_FILTER_NODE"
proof (induction n conf f and n conf as arbitrary: ms and ms'
    rule: priv_send_filter_conf_send_members.induct)
  case (1 conf f)
  then show ?case by simp
next
  case (2 n conf f)
  then show ?case by (auto split: if_splits)
next
  case (3 n conf)
  then show ?case by simp
next
  case (4 n conf a as)
  then show ?case by (fastforce split: option.splits)
qed

lemma names_of_labels:
  "names_of t new = map snd (filter (\<lambda>l. fst l = t) (map imsg_label (to_engine new)))"
  by (simp add: names_of_def imsg_label_def filter_map comp_def)

lemma declarations_Cons:
  "priv_send_filter_conf n conf f = Some ms \<Longrightarrow>
     declarations n conf (f # fs)
       = Imsg IMSG_RECONF_FILTER 0 0 (- 1) (Some (name f)) # ms @ declarations n conf fs"
  by (simp add: declarations_def)

lemma imsg_label_Imsg: "imsg_label (Imsg t peer pid fd d) = (t, d)"
  by (simp add: imsg_label_def)

lemma filter_fst_labels:
  "filter (\<lambda>l. fst l = t) (map (\<lambda>f. (t', g f)) xs) = (if t = t' then map (\<lambda>f. (t', g f)) xs else [])"
  by (induction xs) auto

lemma declarations_labels_of:
  assumes "\<forall>f \<in> set fs. priv_send_filter_conf n conf f \<noteq> None"
    and "t \<noteq> IMSG_RECONF_FILTER_NODE"
  shows "filter (\<lambda>l. fst l = t) (map imsg_label (declarations n conf fs))
           = (if t = IMSG_RECONF_FILTER then map (\<lambda>f. (IMSG_RECONF_FILTER, Some (name f))) fs
              else [])"
  using assms(1)
proof (induction fs)
  case Nil
  show ?case by (simp add: declarations_def)
next
  case (Cons f fs)
  from Cons.prems obtain ms where ms: "priv_send_filter_conf n conf f = Some ms" by auto
  have "\<forall>m \<in> set ms. imsg_type m = IMSG_RECONF_FILTER_NODE"
    using ms by (rule members_are_nodes(1))
  with assms(2) have none: "filter (\<lambda>l. fst l = t) (map imsg_label ms) = []"
    by (auto simp: filter_empty_conv imsg_label_def)
  from Cons.IH Cons.prems none show ?case
    by (cases "t = IMSG_RECONF_FILTER") (simp_all add: declarations_Cons[OF ms] imsg_label_Imsg)
qed

lemma priv_send_config_begin_fails:
  assumes "proc_compose_ret os (trace st @ [Compose Engine (Imsg IMSG_RECONF_CONF 0 0 (- 1) None)]) = - 1"
  shows "priv_send_config os n conf st
           = Some (Returns (- 1) (emits [Compose Engine (Imsg IMSG_RECONF_CONF 0 0 (- 1) None)] st))"
  using assms by (simp add: priv_send_config_def proc_compose_eq)

lemma priv_send_config_frame:
  assumes "priv_send_config os n conf st = Some (Returns r st')"
  shows "(\<exists>new. st' = emits new st) \<and> (r = 0 \<or> r = - 1)"
proof (cases "proc_compose_ret os (trace st @ [Compose Engine (Imsg IMSG_RECONF_CONF 0 0 (- 1) None)]) = - 1")
  case True
  from assms priv_send_config_begin_fails[OF True, of n conf] show ?thesis by auto
next
  case False
  let ?st1 = "emits [Compose Engine (Imsg IMSG_RECONF_CONF 0 0 (- 1) None)] st"
  from assms False obtain u st2 st3 where
    sp: "spawn_filters os (filters conf) ?st1 = Returns u st2" and
    de: "declare_filters os n conf (filters conf) st2 = Some st3" and
    en: "st' = emits [Compose Engine (Imsg IMSG_RECONF_END 0 0 (- 1) None)] st3" and
    r: "r = 0 \<or> r = - 1"
    by (auto simp: priv_send_config_def proc_compose_eq
        split: result.splits option.splits if_splits)
  from spawn_filters_Returns[OF sp] obtain new1 where "st2 = emits new1 ?st1" by blast
  moreover from de obtain new2 where "st3 = emits new2 st2"
    by (auto simp: declare_filters_eq split: if_splits)
  ultimately have "st' = emits ([Compose Engine (Imsg IMSG_RECONF_CONF 0 0 (- 1) None)] @ new1 @ new2
      @ [Compose Engine (Imsg IMSG_RECONF_END 0 0 (- 1) None)]) st"
    using en by (simp only: emits_emits append_assoc)
  with r show ?thesis by blast
qed

lemma priv_send_config_Returns:
  assumes run: "priv_send_config os n conf st = Some (Returns r st')"
    and ok: "proc_compose_ret os (trace st @ [Compose Engine (Imsg IMSG_RECONF_CONF 0 0 (- 1) None)]) \<noteq> - 1"
  shows "\<exists>new. st' = emits new st
     \<and> map imsg_label (to_engine new)
         = (IMSG_RECONF_CONF, None)
           # map (\<lambda>f. (IMSG_RECONF_FILTER_PROC, Some (name f))) (leaves (filters conf))
           @ map imsg_label (declarations n conf (filters conf))
           @ [(IMSG_RECONF_END, None)]
     \<and> length (filter ((=) Socketpair) new) = length (leaves (filters conf))
     \<and> length (filter ((=) Fork) new) = length (leaves (filters conf))
     \<and> (\<forall>f \<in> set (filters conf). priv_send_filter_conf n conf f \<noteq> None)"
proof -
  let ?b = "Compose Engine (Imsg IMSG_RECONF_CONF 0 0 (- 1) None)"
  let ?e = "Compose Engine (Imsg IMSG_RECONF_END 0 0 (- 1) None)"
  let ?d = "map (Compose Engine) (declarations n conf (filters conf))"
  from run ok obtain u st2 st3 where
    sp: "spawn_filters os (filters conf) (emits [?b] st) = Returns u st2" and
    de: "declare_filters os n conf (filters conf) st2 = Some st3" and
    en: "st' = emits [?e] st3"
    by (auto simp: priv_send_config_def proc_compose_eq
        split: result.splits option.splits if_splits)
  from spawn_filters_Returns[OF sp] obtain new1 where
    new1: "st2 = emits new1 (emits [?b] st)"
      "map imsg_label (to_engine new1)
         = map (\<lambda>f. (IMSG_RECONF_FILTER_PROC, Some (name f))) (leaves (filters conf))"
      "length (filter ((=) Socketpair) new1) = length (leaves (filters conf))"
      "length (filter ((=) Fork) new1) = length (leaves (filters conf))"
    by blast
  from de have res: "\<forall>f \<in> set (filters conf). priv_send_filter_conf n conf f \<noteq> None"
    and st3: "st3 = emits ?d st2"
    by (auto simp: declare_filters_eq split: if_splits)
  have A: "st' = emits ([?b] @ new1 @ ?d @ [?e]) st"
    using en st3 new1(1) by (simp only: emits_emits append_assoc)
  have B: "map imsg_label (to_engine ([?b] @ new1 @ ?d @ [?e]))
         = (IMSG_RECONF_CONF, None)
           # map (\<lambda>f. (IMSG_RECONF_FILTER_PROC, Some (name f))) (leaves (filters conf))
           @ map imsg_label (declarations n conf (filters conf))
           @ [(IMSG_RECONF_END, None)]"
    using new1(2) by (simp add: to_engine_append to_engine_Compose imsg_label_def)
  have C: "length (filter ((=) Socketpair) ([?b] @ new1 @ ?d @ [?e])) = length (leaves (filters conf))"
    using new1(3) by (simp add: no_Socketpair_in_Compose)
  have D: "length (filter ((=) Fork) ([?b] @ new1 @ ?d @ [?e])) = length (leaves (filters conf))"
    using new1(4) by (simp add: no_Fork_in_Compose)
  show ?thesis
    by (rule exI[of _ "[?b] @ new1 @ ?d @ [?e]"], intro conjI) (fact A, fact B, fact C, fact D, fact res)
qed

lemma priv_send_config_total:
  assumes ok: "proc_compose_ret os (trace st @ [Compose Engine (Imsg IMSG_RECONF_CONF 0 0 (- 1) None)]) \<noteq> - 1"
    and parent: "\<forall>h. socketpair_ret os h \<noteq> None \<and> fork_ret os h \<noteq> - 1 \<and> fork_ret os h \<noteq> 0"
    and res: "\<forall>f \<in> set (filters conf). priv_send_filter_conf n conf f \<noteq> None"
  shows "\<exists>r st'. priv_send_config os n conf st = Some (Returns r st')"
proof -
  let ?b = "Compose Engine (Imsg IMSG_RECONF_CONF 0 0 (- 1) None)"
  from spawn_filters_parent[OF parent] obtain st2 where
    "spawn_filters os (filters conf) (emits [?b] st) = Returns () st2" by blast
  with ok res show ?thesis
    by (simp add: priv_send_config_def proc_compose_eq declare_filters_eq)
qed

text \<open>The run on the two-entry example configuration when every call succeeds.\<close>

lemma virus_all_run:
  "priv_send_config os_ok 2 conf_virus_all st
     = Some (Returns 0 (emits
         [Compose Engine (Imsg IMSG_RECONF_CONF 0 0 (- 1) None),
          Socketpair, Fork, Close 5, Log ''forked filter %s as pid %d'',
          Compose Engine (Imsg IMSG_RECONF_FILTER_PROC 0 100 6 (Some ''virus'')),
          Compose Engine (Imsg IMSG_RECONF_FILTER 0 0 (- 1) (Some ''virus'')),
          Compose Engine (Imsg IMSG_RECONF_FILTER_NODE 0 0 (- 1) (Some ''virus'')),
          Compose Engine (Imsg IMSG_RECONF_FILTER 0 0 (- 1) (Some ''all'')),
          Compose Engine (Imsg IMSG_RECONF_FILTER_NODE 0 0 (- 1) (Some ''virus'')),
          Compose Engine (Imsg IMSG_RECONF_END 0 0 (- 1) None)] st))"
  by (simp add: priv_send_config_def proc_compose_eq priv_send_filter_proc_def Let_def
      emit_emits emits_emits emits_fields numeral_2_eq_2
      os_ok_def conf_virus_all_def virus_def all_chain_def lookup_filter_def)

lemma priv_send_config_env:
  assumes "priv_send_config os n conf st = Some (Returns r st')"
  shows "env st' = env st"
  using priv_send_config_frame[OF assms] by (auto simp: emits_fields)

section \<open>Properties of the event loop\<close>









section \<open>Properties of main\<close>

lemma noaction_kept: "(x::32 word) AND N \<noteq> 0 \<Longrightarrow> (x OR y) AND N \<noteq> 0"
  by (simp add: word_ao_dist or_eq_0_iff)

lemma noaction_set: "(N::32 word) \<noteq> 0 \<Longrightarrow> (x OR N) AND N \<noteq> 0"
  by (simp add: word_ao_dist or_eq_0_iff)

lemma verbose_unset: "(x::32 word) AND V = 0 \<Longrightarrow> N AND V = 0 \<Longrightarrow> (x OR N) AND V = 0"
  by (simp add: word_ao_dist or_eq_0_iff)

lemma getopt_case_valid:
  "ch \<in> {CHR ''D'', CHR ''d'', CHR ''f'', CHR ''n'', CHR ''s'', CHR ''v''}
     \<Longrightarrow> \<exists>v' st'. getopt_case h os ch a v st = Some (v', st')"
  by (auto simp: getopt_case_def)

lemma getopt_case_frame:
  assumes "getopt_case h os ch a v st = Some (v1, st1)"
  shows "argc v1 = argc v" and "saved_argv0 v1 = saved_argv0 v" and "env st1 = env st"
    and "loop_exit st1 = loop_exit st"
    and "\<exists>logs. trace st1 = trace st @ map Log logs"
    and "engine_flag v1 \<longleftrightarrow> engine_flag v \<or> ch = CHR ''E''"
    and "frontend_flag v1 \<longleftrightarrow> frontend_flag v \<or> ch = CHR ''F''"
proof -
  from assms show "argc v1 = argc v" and "saved_argv0 v1 = saved_argv0 v" and "env st1 = env st"
    and "loop_exit st1 = loop_exit st"
    and "engine_flag v1 \<longleftrightarrow> engine_flag v \<or> ch = CHR ''E''"
    and "frontend_flag v1 \<longleftrightarrow> frontend_flag v \<or> ch = CHR ''F''"
    by (auto simp: getopt_case_def emit_def split: if_splits)
  from assms have "trace st1 = trace st @ map Log [] \<or>
      trace st1 = trace st @ map Log [''could not parse macro definition %s'']"
    by (auto simp: getopt_case_def emit_def split: if_splits)
  then show "\<exists>logs. trace st1 = trace st @ map Log logs" by blast
qed

lemma getopt_case_cmd_opts:
  assumes "getopt_case h os ch a v st = Some (v1, st1)"
  shows "ch = CHR ''n'' \<Longrightarrow> cmd_opts st1 = cmd_opts st OR OPT_NOACTION h"
    and "ch = CHR ''v'' \<Longrightarrow> \<exists>y. cmd_opts st1 = y OR OPT_VERBOSE h"
    and "cmd_opts st1 = cmd_opts st \<or> (\<exists>y. cmd_opts st1 = cmd_opts st OR y)"
    and "ch \<noteq> CHR ''v'' \<Longrightarrow> cmd_opts st1 = cmd_opts st \<or> cmd_opts st1 = cmd_opts st OR OPT_NOACTION h"
proof -
  from assms show "ch = CHR ''n'' \<Longrightarrow> cmd_opts st1 = cmd_opts st OR OPT_NOACTION h"
    by (auto simp: getopt_case_def emit_def split: if_splits)
  from assms show "ch = CHR ''v'' \<Longrightarrow> \<exists>y. cmd_opts st1 = y OR OPT_VERBOSE h"
    by (auto simp: getopt_case_def emit_def split: if_splits)
  from assms show "ch \<noteq> CHR ''v'' \<Longrightarrow>
      cmd_opts st1 = cmd_opts st \<or> cmd_opts st1 = cmd_opts st OR OPT_NOACTION h"
    by (auto simp: getopt_case_def emit_def split: if_splits)
  from assms have "cmd_opts st1 = cmd_opts st
      \<or> cmd_opts st1 = cmd_opts st OR OPT_NOACTION h
      \<or> cmd_opts st1 = cmd_opts st OR OPT_VERBOSE h
      \<or> cmd_opts st1 = cmd_opts st OR (OPT_VERBOSE2 h OR OPT_VERBOSE h)"
    by (auto simp: getopt_case_def emit_def or.assoc split: if_splits)
  then show "cmd_opts st1 = cmd_opts st \<or> (\<exists>y. cmd_opts st1 = cmd_opts st OR y)" by blast
qed

lemma getopt_loop_Cons:
  assumes "getopt_loop h os ((ch, a) # opts) v st = Returns v' st'"
  shows "\<exists>v1 st1. getopt_case h os ch a v st = Some (v1, st1)
           \<and> getopt_loop h os opts v1 st1 = Returns v' st'"
  using assms by (auto simp: usage_def split: option.splits)

lemma getopt_loop_valid:
  "fst ` set opts \<subseteq> {CHR ''D'', CHR ''d'', CHR ''f'', CHR ''n'', CHR ''s'', CHR ''v''}
     \<Longrightarrow> \<exists>v' st'. getopt_loop h os opts v st = Returns v' st'"
proof (induction opts arbitrary: v st)
  case Nil
  show ?case by simp
next
  case (Cons x opts)
  obtain ch a where x: "x = (ch, a)" by (cases x)
  from Cons.prems x have ch: "ch \<in> {CHR ''D'', CHR ''d'', CHR ''f'', CHR ''n'', CHR ''s'', CHR ''v''}"
    and rest: "fst ` set opts \<subseteq> {CHR ''D'', CHR ''d'', CHR ''f'', CHR ''n'', CHR ''s'', CHR ''v''}"
    by auto
  from getopt_case_valid[OF ch] obtain v1 st1 where
    "getopt_case h os ch a v st = Some (v1, st1)" by blast
  with Cons.IH[OF rest, of v1 st1] x show ?case by simp
qed

lemma getopt_loop_Returns:
  "getopt_loop h os opts v st = Returns v' st' \<Longrightarrow>
     argc v' = argc v \<and> saved_argv0 v' = saved_argv0 v \<and> env st' = env st
     \<and> loop_exit st' = loop_exit st \<and> (\<exists>logs. trace st' = trace st @ map Log logs)
     \<and> (engine_flag v' \<longleftrightarrow> engine_flag v \<or> CHR ''E'' \<in> fst ` set opts)
     \<and> (frontend_flag v' \<longleftrightarrow> frontend_flag v \<or> CHR ''F'' \<in> fst ` set opts)"
proof (induction opts arbitrary: v st)
  case Nil
  then have e: "v' = v" "st' = st" by simp_all
  have "\<exists>logs. trace st = trace st @ map Log logs" by (rule exI[of _ "[]"]) simp
  with e show ?case by simp
next
  case (Cons x opts)
  obtain ch a where x: "x = (ch, a)" by (cases x)
  from getopt_loop_Cons[OF Cons.prems[unfolded x]] obtain v1 st1 where
    one: "getopt_case h os ch a v st = Some (v1, st1)" and
    rest: "getopt_loop h os opts v1 st1 = Returns v' st'" by blast
  note f = getopt_case_frame[OF one]
  from f(5) obtain l1 where l1: "trace st1 = trace st @ map Log l1" ..
  from Cons.IH[OF rest] obtain l2 where
    IH: "argc v' = argc v1" "saved_argv0 v' = saved_argv0 v1" "env st' = env st1"
      "loop_exit st' = loop_exit st1" "trace st' = trace st1 @ map Log l2"
      "engine_flag v' \<longleftrightarrow> engine_flag v1 \<or> CHR ''E'' \<in> fst ` set opts"
      "frontend_flag v' \<longleftrightarrow> frontend_flag v1 \<or> CHR ''F'' \<in> fst ` set opts"
    by blast
  from l1 IH(5) have "trace st' = trace st @ map Log (l1 @ l2)" by simp
  then have "\<exists>logs. trace st' = trace st @ map Log logs" ..
  with f(1-4,6,7) IH(1-4,6,7) x show ?case by auto
qed

lemma getopt_loop_noaction:
  "getopt_loop h os opts v st = Returns v' st' \<Longrightarrow> OPT_NOACTION h \<noteq> 0
     \<Longrightarrow> CHR ''n'' \<in> fst ` set opts \<or> cmd_opts st AND OPT_NOACTION h \<noteq> 0
     \<Longrightarrow> cmd_opts st' AND OPT_NOACTION h \<noteq> 0"
proof (induction opts arbitrary: v st)
  case Nil
  then show ?case by simp
next
  case (Cons x opts)
  obtain ch a where x: "x = (ch, a)" by (cases x)
  from getopt_loop_Cons[OF Cons.prems(1)[unfolded x]] obtain v1 st1 where
    one: "getopt_case h os ch a v st = Some (v1, st1)" and
    rest: "getopt_loop h os opts v1 st1 = Returns v' st'" by blast
  note c = getopt_case_cmd_opts[OF one]
  have "CHR ''n'' \<in> fst ` set opts \<or> cmd_opts st1 AND OPT_NOACTION h \<noteq> 0"
  proof (cases "ch = CHR ''n''")
    case True
    with c(1) Cons.prems(2) show ?thesis by (simp add: noaction_set)
  next
    case False
    with Cons.prems(3) x c(3) show ?thesis by (auto simp: noaction_kept)
  qed
  with Cons.IH[OF rest Cons.prems(2)] show ?case by simp
qed

lemma getopt_loop_verbose:
  "getopt_loop h os opts v st = Returns v' st' \<Longrightarrow> OPT_VERBOSE h \<noteq> 0
     \<Longrightarrow> CHR ''v'' \<in> fst ` set opts \<or> cmd_opts st AND OPT_VERBOSE h \<noteq> 0
     \<Longrightarrow> cmd_opts st' AND OPT_VERBOSE h \<noteq> 0"
proof (induction opts arbitrary: v st)
  case Nil
  then show ?case by simp
next
  case (Cons x opts)
  obtain ch a where x: "x = (ch, a)" by (cases x)
  from getopt_loop_Cons[OF Cons.prems(1)[unfolded x]] obtain v1 st1 where
    one: "getopt_case h os ch a v st = Some (v1, st1)" and
    rest: "getopt_loop h os opts v1 st1 = Returns v' st'" by blast
  note c = getopt_case_cmd_opts[OF one]
  have "CHR ''v'' \<in> fst ` set opts \<or> cmd_opts st1 AND OPT_VERBOSE h \<noteq> 0"
  proof (cases "ch = CHR ''v''")
    case True
    with c(2) Cons.prems(2) show ?thesis by (auto simp: noaction_set)
  next
    case False
    with Cons.prems(3) x c(3) show ?thesis by (auto simp: noaction_kept)
  qed
  with Cons.IH[OF rest Cons.prems(2)] show ?case by simp
qed

lemma getopt_loop_quiet:
  "getopt_loop h os opts v st = Returns v' st' \<Longrightarrow> OPT_NOACTION h AND OPT_VERBOSE h = 0
     \<Longrightarrow> CHR ''v'' \<notin> fst ` set opts \<Longrightarrow> cmd_opts st AND OPT_VERBOSE h = 0
     \<Longrightarrow> cmd_opts st' AND OPT_VERBOSE h = 0"
proof (induction opts arbitrary: v st)
  case Nil
  then show ?case by simp
next
  case (Cons x opts)
  obtain ch a where x: "x = (ch, a)" by (cases x)
  from Cons.prems(3) x have nv: "ch \<noteq> CHR ''v''" and nv': "CHR ''v'' \<notin> fst ` set opts" by auto
  from getopt_loop_Cons[OF Cons.prems(1)[unfolded x]] obtain v1 st1 where
    one: "getopt_case h os ch a v st = Some (v1, st1)" and
    rest: "getopt_loop h os opts v1 st1 = Returns v' st'" by blast
  from getopt_case_cmd_opts(4)[OF one nv] Cons.prems(2,4)
  have "cmd_opts st1 AND OPT_VERBOSE h = 0"
    by (auto simp: verbose_unset)
  from Cons.IH[OF rest Cons.prems(2) nv' this] show ?case .
qed

lemma main_options_noaction:
  assumes "getopt_loop h os opts
             \<lparr>debug = False, engine_flag = False, frontend_flag = False,
              saved_argv0 = (case argv0 of None \<Rightarrow> ''smtpfd'' | Some a \<Rightarrow> a), argc = nargs\<rparr>
             (priv0\<lparr>conffile := CONF_FILE h, csock := SMTPFD_SOCKET h\<rparr>) = Returns v st"
    and "argc v \<le> 0" and "\<not> engine_flag v" and "\<not> frontend_flag v"
    and "cmd_opts st AND OPT_NOACTION h \<noteq> 0"
  shows "main_options h os argv0 opts nargs priv0 =
     (case parse_config_ret os (trace st @ [ParseConfig (conffile st)]) of
        None \<Rightarrow> Stops (Exit 1) (emits [ParseConfig (conffile st)] st)
      | Some c \<Rightarrow>
          Stops (Exit 0)
            (if cmd_opts st AND OPT_VERBOSE h \<noteq> 0
             then emits (ParseConfig (conffile st) # map (\<lambda>f. Stdout (config_line f)) (filters c))
                    (st\<lparr>env := c\<rparr>)
             else emits [ParseConfig (conffile st), Stderr ''configuration OK\<newline>'']
                    (st\<lparr>env := c\<rparr>)))"
  using assms
  by (simp add: main_options_def Let_def emit_def emits_def config_print_def
      split: option.splits)

text \<open>The stores \<^verbatim>\<open>rargv[rargc++]\<close> stay inside the array, whichever flags are set.\<close>

lemma rargv_push_in_bounds:
  "\<exists>a rargc. rargv_push (replicate 7 None) 0 (frontend_args argv0 d vb sock) = Inr (a, rargc)
     \<and> length a = 7 \<and> rargc \<le> 7"
  by (cases d; cases vb) (simp_all add: frontend_args_def rargv_store_def eval_nat_numeral)

text \<open>
  Below three arguments left after the options, \<^verbatim>\<open>main\<close> never gets past the store
  \<^verbatim>\<open>rargv[argc - 3] = NULL\<close>: if the privilege checks pass and the frontend is
  spawned, the run ends at that store, outside the array.
\<close>

lemma main_spawn_store:
  assumes "argc v < 3"
  shows "\<exists>s st'. main_spawn h os v st = Stops s st'
           \<and> (s = Fatal ''need root privileges'' \<or> s = Fatal ''unknown user %s''
                \<or> s = Fatal ''proc_exec'' \<or> s = OutOfBounds (argc v - 3))"
proof -
  let ?st1 = "emit (Log ''startup'') (if \<not> debug v then emit Daemon st else st)"
  from rargv_push_in_bounds[of "saved_argv0 v" "debug v" "cmd_opts ?st1 AND OPT_VERBOSE h \<noteq> 0"
      "csock ?st1"]
  obtain a rargc where
    push: "rargv_push (replicate 7 None) 0
       (frontend_args (saved_argv0 v) (debug v) (cmd_opts ?st1 AND OPT_VERBOSE h \<noteq> 0)
          (csock ?st1)) = Inr (a, rargc)" and
    len: "length a = 7" by blast
  have one: "rargv_store a 1 (Some ''-E'') = Inr (a[1 := Some ''-E''])"
    using len by (simp add: rargv_store_def)
  have oob: "rargv_store (a[1 := Some ''-E'']) (argc v - 3) None = Inl (argc v - 3)"
    using assms by (simp add: rargv_store_def)
  show ?thesis
  proof (cases "proc_exec os Frontend a ?st1")
    case (Returns u st2)
    then show ?thesis
      unfolding main_spawn_def Let_def
      by (simp only: push one oob sum.case prod.case result.case) auto
  next
    case (Stops s st2)
    then have "s = Fatal ''proc_exec''"
      by (simp add: proc_exec_def Let_def split: if_splits)
    with Stops show ?thesis
      unfolding main_spawn_def Let_def
      by (simp only: push sum.case prod.case result.case) auto
  qed
qed

lemma main_options_Returns:
  assumes "main_options h os argv0 opts nargs st0 = Returns v st"
  shows "argc v = nargs \<and> nargs \<le> 0"
proof -
  from assms obtain v1 st1 where
    gl: "getopt_loop h os opts
             \<lparr>debug = False, engine_flag = False, frontend_flag = False,
              saved_argv0 = (case argv0 of None \<Rightarrow> ''smtpfd'' | Some a \<Rightarrow> a), argc = nargs\<rparr>
             (st0\<lparr>conffile := CONF_FILE h, csock := SMTPFD_SOCKET h\<rparr>) = Returns v1 st1"
    by (auto simp: main_options_def split: result.splits)
  from getopt_loop_Returns[OF gl] have a: "argc v1 = nargs" by simp
  from assms gl have "v = v1 \<and> \<not> argc v1 > 0"
    by (auto simp: main_options_def usage_def run_role_def Let_def
        split: if_splits option.splits)
  with a show ?thesis by simp
qed

lemma getopt_loop_Stops:
  "getopt_loop h os opts v st = Stops s st' \<Longrightarrow> s = Exit 1"
proof (induction opts arbitrary: v st)
  case Nil
  then show ?case by simp
next
  case (Cons x opts)
  obtain ch a where x: "x = (ch, a)" by (cases x)
  show ?case
  proof (cases "getopt_case h os ch a v st")
    case None
    with Cons.prems x show ?thesis by (simp add: usage_def)
  next
    case (Some p)
    obtain v1 st1 where "p = (v1, st1)" by (cases p)
    with Some Cons.prems x have "getopt_loop h os opts v1 st1 = Stops s st'" by simp
    then show ?thesis by (rule Cons.IH)
  qed
qed

lemma main_options_Stops:
  assumes "main_options h os argv0 opts nargs st0 = Stops s st"
  shows "s \<in> {Exit 0, Exit 1, Role Engine, Role Frontend}"
proof (cases "getopt_loop h os opts
             \<lparr>debug = False, engine_flag = False, frontend_flag = False,
              saved_argv0 = (case argv0 of None \<Rightarrow> ''smtpfd'' | Some a \<Rightarrow> a), argc = nargs\<rparr>
             (st0\<lparr>conffile := CONF_FILE h, csock := SMTPFD_SOCKET h\<rparr>)")
  case (Stops s1 st1)
  from getopt_loop_Stops[OF Stops] Stops assms show ?thesis
    by (simp add: main_options_def)
next
  case (Returns v1 st1)
  with assms show ?thesis
    by (auto simp: main_options_def usage_def run_role_def Let_def
        split: if_splits option.splits)
qed

text \<open>
  The resolver against the flattening, where each is defined: whenever the flattening
  exists the resolver returns having sent it, whatever the resolver returns is a
  flattening, and there is at most one.
\<close>

lemma flattening_partial:
  assumes "all_resolve conf" and "f \<in> set (filters conf)" and "chain_flag f"
  shows "(\<forall>ls. flattens conf (argv f) ls \<longrightarrow>
            (\<exists>n. priv_send_filter_conf n conf f = Some (map member_msg ls)))
       \<and> (\<forall>n ms. priv_send_filter_conf n conf f = Some ms \<longrightarrow>
            (\<exists>ls. flattens conf (argv f) ls \<and> ms = map member_msg ls))
       \<and> (\<forall>ls ls'. flattens conf (argv f) ls \<longrightarrow> flattens conf (argv f) ls' \<longrightarrow> ls = ls')"
proof (intro conjI allI impI)
  fix ls assume "flattens conf (argv f) ls"
  then obtain n where "send_members n conf (argv f) = Some (map member_msg ls)"
    using flattens_delivered by blast
  with assms(3) have "priv_send_filter_conf (Suc n) conf f = Some (map member_msg ls)"
    by simp
  then show "\<exists>n. priv_send_filter_conf n conf f = Some (map member_msg ls)" ..
next
  fix n ms assume "priv_send_filter_conf n conf f = Some ms"
  then show "\<exists>ls. flattens conf (argv f) ls \<and> ms = map member_msg ls"
    using assms(2,3) by (rule delivered_flattens(1)[OF assms(1)])
next
  fix ls ls' assume "flattens conf (argv f) ls" and "flattens conf (argv f) ls'"
  then obtain n n' where
    n: "send_members n conf (argv f) = Some (map member_msg ls)" and
    n': "send_members n' conf (argv f) = Some (map member_msg ls')"
    using flattens_delivered by blast
  have "send_members (max n n') conf (argv f) = Some (map member_msg ls)"
    using n by (rule send_members_fuel_mono) simp
  moreover have "send_members (max n n') conf (argv f) = Some (map member_msg ls')"
    using n' by (rule send_members_fuel_mono) simp
  ultimately have "map member_msg ls = map member_msg ls'" by simp
  moreover have "inj member_msg" by (rule injI) (simp add: member_msg_def)
  ultimately show "ls = ls'" by simp
qed

lemma acyclic_uniform_bound:
  assumes "acyclic (ref_graph conf)"
  shows "\<exists>N. \<forall>g \<in> set (filters conf). \<forall>n \<ge> N. priv_send_filter_conf n conf g \<noteq> None"
proof -
  have "\<forall>g \<in> set (filters conf). \<exists>N. \<not> nested conf g N"
    using acyclic_bounded[OF assms] by blast
  then obtain bound where bound: "\<forall>g \<in> set (filters conf). \<not> nested conf g (bound g)"
    by metis
  define M where "M = Max (insert 0 (bound ` set (filters conf)))"
  have le: "bound g \<le> M" if "g \<in> set (filters conf)" for g
    unfolding M_def using that by (intro Max_ge) auto
  have "priv_send_filter_conf n conf g \<noteq> None" if g: "g \<in> set (filters conf)" and n: "M \<le> n" for g n
  proof
    assume "priv_send_filter_conf n conf g = None"
    then have "nested conf g n" by (simp add: fuel_exhausted_iff)
    moreover from le[OF g] n have "bound g \<le> n" by simp
    ultimately have "nested conf g (bound g)" by (rule nested_antimono)
    with bound g show False by blast
  qed
  then show ?thesis by blast
qed

lemma declarations_split:
  assumes "priv_send_filter_conf n conf f = Some ms"
  shows "declarations n conf (pre @ f # post)
           = declarations n conf pre @ Imsg IMSG_RECONF_FILTER 0 0 (- 1) (Some (name f)) # ms
               @ declarations n conf post"
  using assms by (simp add: declarations_def)

lemma conf_nested_lookup:
  "lookup_filter conf_nested ''A'' = Some (leaf ''A'')"
  "lookup_filter conf_nested ''B'' = Some chain_B"
  "lookup_filter conf_nested ''C'' = Some (leaf ''C'')"
  "lookup_filter conf_nested ''D'' = Some (leaf ''D'')"
  by (simp_all add: lookup_filter_def conf_nested_def leaf_def chain_B_def chain_X_def)

lemma conf_nested_acyclic: "acyclic (ref_graph conf_nested)"
proof (rule acyclicI_order)
  fix a b assume "(a, b) \<in> ref_graph conf_nested"
  then show "(if name b = ''B'' then 1 else if name b = ''X'' then 2 else (0::nat))
      < (if name a = ''B'' then 1 else if name a = ''X'' then 2 else 0)"
    by (auto simp: ref_graph_def refs_def lookup_filter_def conf_nested_def leaf_def
        chain_B_def chain_X_def)
qed

lemma conf_nested_flattens: "flattens conf_nested (argv chain_X) [''A'', ''C'', ''D'']"
proof -
  note l = conf_nested_lookup
  have nA: "\<not> chain_flag (leaf ''A'')" and nC: "\<not> chain_flag (leaf ''C'')"
    and nD: "\<not> chain_flag (leaf ''D'')" and cB: "chain_flag chain_B"
    by (simp_all add: leaf_def chain_B_def)
  have d: "flattens conf_nested [''D''] [''D'']"
    by (rule flat_leaf[OF l(4) nD flat_end])
  have cd: "flattens conf_nested [''C'', ''D''] [''C'', ''D'']"
    by (rule flat_leaf[OF l(3) nC d])
  have "flattens conf_nested (argv chain_B) [''C'', ''D'']"
    using cd by (simp add: chain_B_def)
  from flat_chain[OF l(2) cB this flat_end]
  have b: "flattens conf_nested [''B''] [''C'', ''D'']" by simp
  have "flattens conf_nested [''A'', ''B''] [''A'', ''C'', ''D'']"
    by (rule flat_leaf[OF l(1) nA b])
  then show ?thesis by (simp add: chain_X_def)
qed

section \<open>The claims\<close>

text \<open>
  C8. For a chain entry and any position of its reference list, a referenced name
  that no entry of the configuration has is skipped: no message is sent for it, no
  error is raised, and the members before and after it are resolved in order. The
  messages of the chain are those of the references before the name followed by
  those of the references after it, which is also what the chain gives with that
  reference taken out.
\<close>

theorem unresolved_member_skipped:
  assumes "chain_flag f" and "argv f = xs @ a # ys" and "a \<notin> name ` set (filters conf)"
  shows "priv_send_filter_conf (Suc n) conf f =
           (case send_members n conf xs of
              None \<Rightarrow> None
            | Some ms \<Rightarrow>
                (case send_members n conf ys of None \<Rightarrow> None | Some ms' \<Rightarrow> Some (ms @ ms')))
         \<and> priv_send_filter_conf (Suc n) conf f
             = priv_send_filter_conf (Suc n) conf (f\<lparr>argv := xs @ ys\<rparr>)"
proof -
  from assms(3) have "lookup_filter conf a = None"
    by (simp add: lookup_filter_None)
  then have "send_members n conf (a # ys) = send_members n conf ys"
    by simp
  then have "send_members n conf (xs @ a # ys) = send_members n conf (xs @ ys)"
    by (simp only: send_members_append)
  with assms(1,2) show ?thesis
    by (simp add: send_members_append)
qed

theorem unresolved_member_skipped_witness:
  "chain_flag ghost_chain \<and> argv ghost_chain = [] @ ''ghost'' # [''virus'']
   \<and> ''ghost'' \<notin> name ` set (filters conf_ghost)
   \<and> priv_send_filter_conf (Suc 1) conf_ghost ghost_chain = Some [member_msg ''virus'']"
proof -
  have h1: "chain_flag ghost_chain" by (simp add: ghost_chain_def)
  have h2: "argv ghost_chain = [] @ ''ghost'' # [''virus'']" by (simp add: ghost_chain_def)
  have h3: "''ghost'' \<notin> name ` set (filters conf_ghost)"
    by (simp add: conf_ghost_def ghost_chain_def virus_def)
  have "lookup_filter conf_ghost ''virus'' = Some virus"
    by (simp add: lookup_filter_def conf_ghost_def virus_def)
  then have "send_members 1 conf_ghost [''virus''] = Some [member_msg ''virus'']"
    by (simp add: member_msg_def virus_def)
  with unresolved_member_skipped[OF h1 h2 h3, of 1] h1 h2 h3 show ?thesis
    by simp
qed

text \<open>
  C2, as amended. In a configuration whose chain reference graph is acyclic and in
  which every chain-member name resolves, every chain entry has exactly one fully
  flattened, order-preserving, depth-first resolution of its reference list down to
  leaf names; the resolver returns on it, and the member messages it sends are
  exactly that list, whatever bound it returns within. In the second loop of
  \<^verbatim>\<open>priv_send_config\<close> these messages stand right after the declaration of the
  chain and before the declaration of the next entry. The chain over \<open>[A, B]\<close> with
  \<open>B\<close> a chain over \<open>[C, D]\<close> delivers \<open>[A, C, D]\<close>.
\<close>

theorem acyclic_chain_members_flattened:
  assumes "all_resolve conf" and "acyclic (ref_graph conf)"
    and "f \<in> set (filters conf)" and "chain_flag f"
  shows "\<exists>ls. flattens conf (argv f) ls
           \<and> (\<forall>ls'. flattens conf (argv f) ls' \<longrightarrow> ls' = ls)
           \<and> (\<exists>n. priv_send_filter_conf n conf f = Some (map member_msg ls))
           \<and> (\<forall>n ms. priv_send_filter_conf n conf f = Some ms \<longrightarrow> ms = map member_msg ls)
           \<and> (\<exists>N. \<forall>n \<ge> N. \<forall>os st pre post. filters conf = pre @ f # post \<longrightarrow>
                 declare_filters os n conf (filters conf) st
                   = Some (emits (map (Compose Engine)
                       (declarations n conf pre
                          @ Imsg IMSG_RECONF_FILTER 0 0 (- 1) (Some (name f)) # map member_msg ls
                          @ declarations n conf post)) st))"
proof -
  note part = flattening_partial[OF assms(1,3,4)]
  from acyclic_uniform_bound[OF assms(2)] obtain N where
    N: "\<forall>g \<in> set (filters conf). \<forall>n \<ge> N. priv_send_filter_conf n conf g \<noteq> None" by blast
  with assms(3) obtain ms where ms: "priv_send_filter_conf N conf f = Some ms" by auto
  from part[THEN conjunct2, THEN conjunct1, THEN spec, THEN spec, THEN mp, OF ms]
  obtain ls where ls: "flattens conf (argv f) ls" and msl: "ms = map member_msg ls" by blast
  have uniq: "\<forall>ls'. flattens conf (argv f) ls' \<longrightarrow> ls' = ls"
    using part ls by blast
  have ret: "\<exists>n. priv_send_filter_conf n conf f = Some (map member_msg ls)"
    using ms msl by blast
  have only: "\<forall>n ms. priv_send_filter_conf n conf f = Some ms \<longrightarrow> ms = map member_msg ls"
  proof (intro allI impI)
    fix n ms' assume "priv_send_filter_conf n conf f = Some ms'"
    from part[THEN conjunct2, THEN conjunct1, THEN spec, THEN spec, THEN mp, OF this]
    obtain ls' where "flattens conf (argv f) ls'" and "ms' = map member_msg ls'" by blast
    with uniq show "ms' = map member_msg ls" by simp
  qed
  have loop: "\<forall>n \<ge> N. \<forall>os st pre post. filters conf = pre @ f # post \<longrightarrow>
                 declare_filters os n conf (filters conf) st
                   = Some (emits (map (Compose Engine)
                       (declarations n conf pre
                          @ Imsg IMSG_RECONF_FILTER 0 0 (- 1) (Some (name f)) # map member_msg ls
                          @ declarations n conf post)) st)"
  proof (intro allI impI)
    fix n os st pre post
    assume n: "N \<le> n" and sp: "filters conf = pre @ f # post"
    from N n have all: "\<forall>g \<in> set (filters conf). priv_send_filter_conf n conf g \<noteq> None" by simp
    with assms(3) obtain ms' where ms': "priv_send_filter_conf n conf f = Some ms'" by auto
    with only have "priv_send_filter_conf n conf f = Some (map member_msg ls)" by simp
    from declarations_split[OF this, of pre post] sp
    have "declarations n conf (filters conf)
        = declarations n conf pre
            @ Imsg IMSG_RECONF_FILTER 0 0 (- 1) (Some (name f)) # map member_msg ls
            @ declarations n conf post" by simp
    moreover from all have "declare_filters os n conf (filters conf) st
        = Some (emits (map (Compose Engine) (declarations n conf (filters conf))) st)"
      by (simp add: declare_filters_eq)
    ultimately show "declare_filters os n conf (filters conf) st
                   = Some (emits (map (Compose Engine)
                       (declarations n conf pre
                          @ Imsg IMSG_RECONF_FILTER 0 0 (- 1) (Some (name f)) # map member_msg ls
                          @ declarations n conf post)) st)"
      by simp
  qed
  from loop have loop': "\<exists>N. \<forall>n \<ge> N. \<forall>os st pre post. filters conf = pre @ f # post \<longrightarrow>
                 declare_filters os n conf (filters conf) st
                   = Some (emits (map (Compose Engine)
                       (declarations n conf pre
                          @ Imsg IMSG_RECONF_FILTER 0 0 (- 1) (Some (name f)) # map member_msg ls
                          @ declarations n conf post)) st)" ..
  show ?thesis
    by (rule exI[of _ ls], intro conjI) (fact ls, fact uniq, fact ret, fact only, fact loop')
qed

theorem acyclic_chain_members_flattened_witness:
  "all_resolve conf_nested \<and> acyclic (ref_graph conf_nested)
   \<and> chain_X \<in> set (filters conf_nested) \<and> chain_flag chain_X
   \<and> flattens conf_nested (argv chain_X) [''A'', ''C'', ''D'']
   \<and> (\<exists>n. priv_send_filter_conf n conf_nested chain_X
             = Some (map member_msg [''A'', ''C'', ''D'']))
   \<and> priv_send_filter_conf 3 conf_nested chain_X
       = Some [member_msg ''A'', member_msg ''C'', member_msg ''D'']"
proof -
  note l = conf_nested_lookup
  have h1: "all_resolve conf_nested"
    by (simp add: all_resolve_def lookup_filter_def conf_nested_def leaf_def chain_B_def
        chain_X_def)
  note h2 = conf_nested_acyclic
  have h3: "chain_X \<in> set (filters conf_nested)" by (simp add: conf_nested_def)
  have h4: "chain_flag chain_X" by (simp add: chain_X_def)
  note fl = conf_nested_flattens
  from acyclic_chain_members_flattened[OF h1 h2 h3 h4] obtain ls where
    H: "flattens conf_nested (argv chain_X) ls
           \<and> (\<forall>ls'. flattens conf_nested (argv chain_X) ls' \<longrightarrow> ls' = ls)
           \<and> (\<exists>n. priv_send_filter_conf n conf_nested chain_X = Some (map member_msg ls))
           \<and> (\<forall>n ms. priv_send_filter_conf n conf_nested chain_X = Some ms
                 \<longrightarrow> ms = map member_msg ls)
           \<and> (\<exists>N. \<forall>n \<ge> N. \<forall>os st pre post. filters conf_nested = pre @ chain_X # post \<longrightarrow>
                 declare_filters os n conf_nested (filters conf_nested) st
                   = Some (emits (map (Compose Engine)
                       (declarations n conf_nested pre
                          @ Imsg IMSG_RECONF_FILTER 0 0 (- 1) (Some (name chain_X))
                            # map member_msg ls
                          @ declarations n conf_nested post)) st))" ..
  from H fl have eq: "ls = [''A'', ''C'', ''D'']" by blast
  from H have a: "\<exists>n. priv_send_filter_conf n conf_nested chain_X = Some (map member_msg ls)"
    by (elim conjE)
  have run: "priv_send_filter_conf 3 conf_nested chain_X
       = Some [member_msg ''A'', member_msg ''C'', member_msg ''D'']"
    by (simp add: numeral_3_eq_3 chain_X_def chain_B_def leaf_def member_msg_def
        l(1)[unfolded leaf_def] l(2)[unfolded chain_B_def] l(3)[unfolded leaf_def]
        l(4)[unfolded leaf_def])
  from h1 h2 h3 h4 fl a[unfolded eq] run show ?thesis by (intro conjI)
qed

text \<open>
  The claim as stated fails on two chains that name each other: every chain-member
  name of the configuration resolves, yet the chain \<open>p\<close> has no flattening and the
  resolver hits every bound on it, so no member sequence is delivered.
\<close>

theorem mutual_chains_no_flattening:
  "all_resolve conf_mutual \<and> chain_p \<in> set (filters conf_mutual) \<and> chain_flag chain_p
   \<and> \<not> (\<exists>ls. flattens conf_mutual (argv chain_p) ls)
   \<and> (\<forall>n. priv_send_filter_conf n conf_mutual chain_p = None)"
proof -
  have h1: "all_resolve conf_mutual"
    by (simp add: all_resolve_def lookup_filter_def conf_mutual_def leaf_def chain_p_def
        chain_q_def)
  have h2: "chain_p \<in> set (filters conf_mutual)" by (simp add: conf_mutual_def)
  have h3: "chain_flag chain_p" by (simp add: chain_p_def)
  have pq: "(chain_p, chain_q) \<in> ref_graph conf_mutual"
    by (simp add: ref_graph_def refs_def lookup_filter_def conf_mutual_def leaf_def chain_p_def
        chain_q_def)
  have qp: "(chain_q, chain_p) \<in> ref_graph conf_mutual"
    by (simp add: ref_graph_def refs_def lookup_filter_def conf_mutual_def leaf_def chain_p_def
        chain_q_def)
  from pq qp have "(chain_p, chain_p) \<in> (ref_graph conf_mutual)\<^sup>+" by (rule trancl_into_trancl2[OF _ r_into_trancl])
  then have "nested conf_mutual chain_p n" for n by (rule cycle_unbounded)
  then have never: "\<forall>n. priv_send_filter_conf n conf_mutual chain_p = None"
    by (simp add: fuel_exhausted_iff)
  have none: "\<not> (\<exists>ls. flattens conf_mutual (argv chain_p) ls)"
  proof
    assume "\<exists>ls. flattens conf_mutual (argv chain_p) ls"
    then obtain ls where "flattens conf_mutual (argv chain_p) ls" ..
    from flattens_delivered[OF this] obtain n where
      "send_members n conf_mutual (argv chain_p) = Some (map member_msg ls)" ..
    with h3 have "priv_send_filter_conf (Suc n) conf_mutual chain_p = Some (map member_msg ls)"
      by simp
    with never show False by simp
  qed
  from h1 h2 h3 none never show ?thesis by (intro conjI)
qed

text \<open>
  C5, as amended. For an entry of a configuration whose reference graph is acyclic
  the recursion of the resolver ends, and its depth is the chain nesting depth
  \<open>d\<close> of the entry (the length of its longest reference path): \<open>d\<close> nested
  activations are not enough and \<open>d + 1\<close>, the outermost one included, are. For
  an entry that reaches itself through references no number of activations is
  enough.
\<close>

theorem resolution_depth:
  assumes "f \<in> set (filters conf)"
  shows "(acyclic (ref_graph conf) \<longrightarrow>
            (\<exists>d. nesting_depth conf f d \<and> priv_send_filter_conf d conf f = None
                 \<and> (\<exists>ms. priv_send_filter_conf (Suc d) conf f = Some ms)))
       \<and> ((f, f) \<in> (ref_graph conf)\<^sup>+ \<longrightarrow> (\<forall>n. priv_send_filter_conf n conf f = None))"
proof (intro conjI impI)
  assume "acyclic (ref_graph conf)"
  then obtain N where "\<not> nested conf f N"
    using acyclic_bounded assms by blast
  then obtain d where d: "nesting_depth conf f d"
    using depth_exists by blast
  then have "priv_send_filter_conf d conf f = None"
    and "priv_send_filter_conf (Suc d) conf f \<noteq> None"
    by (simp_all only: nesting_depth_def fuel_exhausted_iff not_False_eq_True)
  with d show "\<exists>d. nesting_depth conf f d \<and> priv_send_filter_conf d conf f = None
                 \<and> (\<exists>ms. priv_send_filter_conf (Suc d) conf f = Some ms)"
    by blast
next
  assume "(f, f) \<in> (ref_graph conf)\<^sup>+"
  then show "\<forall>n. priv_send_filter_conf n conf f = None"
    by (simp add: fuel_exhausted_iff cycle_unbounded)
qed

theorem resolution_depth_witness:
  "chain_X \<in> set (filters conf_nested) \<and> acyclic (ref_graph conf_nested)
   \<and> (\<exists>d. nesting_depth conf_nested chain_X d \<and> priv_send_filter_conf d conf_nested chain_X = None
          \<and> (\<exists>ms. priv_send_filter_conf (Suc d) conf_nested chain_X = Some ms))
   \<and> nesting_depth conf_nested chain_X 2
   \<and> priv_send_filter_conf 2 conf_nested chain_X = None
   \<and> priv_send_filter_conf 3 conf_nested chain_X
       = Some [member_msg ''A'', member_msg ''C'', member_msg ''D'']
   \<and> self_chain \<in> set (filters conf_cyclic)
   \<and> (self_chain, self_chain) \<in> (ref_graph conf_cyclic)\<^sup>+
   \<and> (\<forall>n. priv_send_filter_conf n conf_cyclic self_chain = None)"
proof -
  have lA: "lookup_filter conf_nested ''A'' = Some (leaf ''A'')"
    and lB: "lookup_filter conf_nested ''B'' = Some chain_B"
    and lC: "lookup_filter conf_nested ''C'' = Some (leaf ''C'')"
    and lD: "lookup_filter conf_nested ''D'' = Some (leaf ''D'')"
    by (simp_all add: lookup_filter_def conf_nested_def leaf_def chain_B_def chain_X_def)
  have c1: "self_chain \<in> set (filters conf_cyclic)" by (simp add: conf_cyclic_def)
  have "(self_chain, self_chain) \<in> ref_graph conf_cyclic"
    by (simp add: ref_graph_def refs_def lookup_filter_def conf_cyclic_def self_chain_def)
  then have c2: "(self_chain, self_chain) \<in> (ref_graph conf_cyclic)\<^sup>+" ..
  from resolution_depth[OF c1] c2
  have c3: "\<forall>n. priv_send_filter_conf n conf_cyclic self_chain = None" by blast
  have h1: "chain_X \<in> set (filters conf_nested)" by (simp add: conf_nested_def)
  have h2: "acyclic (ref_graph conf_nested)"
  proof (rule acyclicI_order)
    fix a b assume "(a, b) \<in> ref_graph conf_nested"
    then show "(if name b = ''B'' then 1 else if name b = ''X'' then 2 else (0::nat))
        < (if name a = ''B'' then 1 else if name a = ''X'' then 2 else 0)"
      by (auto simp: ref_graph_def refs_def lookup_filter_def conf_nested_def leaf_def
          chain_B_def chain_X_def)
  qed
  have r2: "priv_send_filter_conf 2 conf_nested chain_X = None"
    by (simp add: numeral_2_eq_2 chain_X_def chain_B_def leaf_def member_msg_def
        lA[unfolded leaf_def] lB[unfolded chain_B_def] lC[unfolded leaf_def] lD[unfolded leaf_def])
  have r3: "priv_send_filter_conf 3 conf_nested chain_X
       = Some [member_msg ''A'', member_msg ''C'', member_msg ''D'']"
    by (simp add: numeral_3_eq_3 chain_X_def chain_B_def leaf_def member_msg_def
        lA[unfolded leaf_def] lB[unfolded chain_B_def] lC[unfolded leaf_def] lD[unfolded leaf_def])
  have nd: "nesting_depth conf_nested chain_X 2"
    unfolding nesting_depth_def
    using r2 r3 by (simp add: fuel_exhausted_iff[symmetric] numeral_3_eq_3 numeral_2_eq_2)
  from resolution_depth[OF h1] h2
  have "\<exists>d. nesting_depth conf_nested chain_X d \<and> priv_send_filter_conf d conf_nested chain_X = None
          \<and> (\<exists>ms. priv_send_filter_conf (Suc d) conf_nested chain_X = Some ms)"
    by blast
  with h1 h2 nd r2 r3 c1 c2 c3 show ?thesis by blast
qed

text \<open>
  The claim as stated fails on the chain that names itself: every reference of the
  configuration resolves, the entry reaches itself, and the resolver hits every
  bound on its number of activations.
\<close>

theorem self_chain_never_resolved:
  "(self_chain, self_chain) \<in> ref_graph conf_cyclic
   \<and> \<not> (\<exists>n ms. priv_send_filter_conf n conf_cyclic self_chain = Some ms)"
proof -
  have g: "(self_chain, self_chain) \<in> ref_graph conf_cyclic"
    by (simp add: ref_graph_def refs_def lookup_filter_def conf_cyclic_def self_chain_def)
  have "nested conf_cyclic self_chain n" for n
    by (rule cycle_unbounded) (use g in blast)
  then have "priv_send_filter_conf n conf_cyclic self_chain = None" for n
    by (simp add: fuel_exhausted_iff)
  with g show ?thesis by simp
qed

text \<open>
  C3, as amended. Whenever the begin marker has been composed without failure
  and \<^verbatim>\<open>priv_send_config\<close> returns, the spawner has been invoked exactly once per
  entry that is not a chain (one \<^verbatim>\<open>socketpair\<close>, one \<^verbatim>\<open>fork\<close> and one
  \<^verbatim>\<open>IMSG_RECONF_FILTER_PROC\<close> message each, in insertion order, whatever the chains
  reference) and never for a chain, and exactly one \<^verbatim>\<open>IMSG_RECONF_FILTER\<close> message
  has been sent per entry, in insertion order. It does return when, besides, every
  \<^verbatim>\<open>socketpair\<close> and \<^verbatim>\<open>fork\<close> succeeds with this process as the parent and the
  resolution of every entry ends within the bound.
\<close>

theorem spawn_once_declare_once:
  assumes "proc_compose_ret os (trace st @ [Compose Engine (Imsg IMSG_RECONF_CONF 0 0 (- 1) None)]) \<noteq> - 1"
  shows "(\<forall>r st'. priv_send_config os n conf st = Some (Returns r st') \<longrightarrow>
            (\<exists>new. st' = emits new st
               \<and> names_of IMSG_RECONF_FILTER_PROC new
                   = map (\<lambda>f. Some (name f)) (leaves (filters conf))
               \<and> length (filter ((=) Socketpair) new) = length (leaves (filters conf))
               \<and> length (filter ((=) Fork) new) = length (leaves (filters conf))
               \<and> names_of IMSG_RECONF_FILTER new = map (\<lambda>f. Some (name f)) (filters conf)))
       \<and> ((\<forall>h. socketpair_ret os h \<noteq> None \<and> fork_ret os h \<noteq> - 1 \<and> fork_ret os h \<noteq> 0) \<longrightarrow>
          (\<forall>f \<in> set (filters conf). priv_send_filter_conf n conf f \<noteq> None) \<longrightarrow>
          (\<exists>r st'. priv_send_config os n conf st = Some (Returns r st')))"
proof (intro conjI allI impI)
  fix r st' assume run: "priv_send_config os n conf st = Some (Returns r st')"
  from priv_send_config_Returns[OF run assms] obtain new where
    H: "st' = emits new st
     \<and> map imsg_label (to_engine new)
         = (IMSG_RECONF_CONF, None)
           # map (\<lambda>f. (IMSG_RECONF_FILTER_PROC, Some (name f))) (leaves (filters conf))
           @ map imsg_label (declarations n conf (filters conf))
           @ [(IMSG_RECONF_END, None)]
     \<and> length (filter ((=) Socketpair) new) = length (leaves (filters conf))
     \<and> length (filter ((=) Fork) new) = length (leaves (filters conf))
     \<and> (\<forall>f \<in> set (filters conf). priv_send_filter_conf n conf f \<noteq> None)" ..
  from H have A: "st' = emits new st" by (rule conjunct1)
  from H have B: "map imsg_label (to_engine new)
         = (IMSG_RECONF_CONF, None)
           # map (\<lambda>f. (IMSG_RECONF_FILTER_PROC, Some (name f))) (leaves (filters conf))
           @ map imsg_label (declarations n conf (filters conf))
           @ [(IMSG_RECONF_END, None)]" by (elim conjE)
  from H have C: "length (filter ((=) Socketpair) new) = length (leaves (filters conf))"
    by (elim conjE)
  from H have D: "length (filter ((=) Fork) new) = length (leaves (filters conf))"
    by (elim conjE)
  from H have res: "\<forall>f \<in> set (filters conf). priv_send_filter_conf n conf f \<noteq> None"
    by (elim conjE)
  have E: "names_of IMSG_RECONF_FILTER_PROC new = map (\<lambda>f. Some (name f)) (leaves (filters conf))"
    by (simp add: names_of_labels B declarations_labels_of[OF res] filter_fst_labels comp_def)
  have F: "names_of IMSG_RECONF_FILTER new = map (\<lambda>f. Some (name f)) (filters conf)"
    by (simp add: names_of_labels B declarations_labels_of[OF res] filter_fst_labels comp_def)
  show "\<exists>new. st' = emits new st
               \<and> names_of IMSG_RECONF_FILTER_PROC new
                   = map (\<lambda>f. Some (name f)) (leaves (filters conf))
               \<and> length (filter ((=) Socketpair) new) = length (leaves (filters conf))
               \<and> length (filter ((=) Fork) new) = length (leaves (filters conf))
               \<and> names_of IMSG_RECONF_FILTER new = map (\<lambda>f. Some (name f)) (filters conf)"
    by (rule exI[of _ new], intro conjI) (fact A, fact E, fact C, fact D, fact F)
next
  assume "\<forall>h. socketpair_ret os h \<noteq> None \<and> fork_ret os h \<noteq> - 1 \<and> fork_ret os h \<noteq> 0"
    and "\<forall>f \<in> set (filters conf). priv_send_filter_conf n conf f \<noteq> None"
  with assms show "\<exists>r st'. priv_send_config os n conf st = Some (Returns r st')"
    by (rule priv_send_config_total)
qed

theorem spawn_once_declare_once_witness:
  "proc_compose_ret os_ok (trace priv0 @ [Compose Engine (Imsg IMSG_RECONF_CONF 0 0 (- 1) None)]) \<noteq> - 1
   \<and> (\<exists>r st' new. priv_send_config os_ok 2 conf_virus_all priv0 = Some (Returns r st')
         \<and> st' = emits new priv0
         \<and> names_of IMSG_RECONF_FILTER_PROC new = [Some ''virus'']
         \<and> length (filter ((=) Socketpair) new) = 1
         \<and> length (filter ((=) Fork) new) = 1
         \<and> names_of IMSG_RECONF_FILTER new = [Some ''virus'', Some ''all''])"
proof -
  have h1: "proc_compose_ret os_ok (trace priv0 @ [Compose Engine (Imsg IMSG_RECONF_CONF 0 0 (- 1) None)]) \<noteq> - 1"
    by (simp add: os_ok_def)
  have h2: "\<forall>h. socketpair_ret os_ok h \<noteq> None \<and> fork_ret os_ok h \<noteq> - 1 \<and> fork_ret os_ok h \<noteq> 0"
    by (simp add: os_ok_def)
  have h3: "\<forall>f \<in> set (filters conf_virus_all). priv_send_filter_conf 2 conf_virus_all f \<noteq> None"
    by (simp add: numeral_2_eq_2 conf_virus_all_def virus_def all_chain_def lookup_filter_def)
  have lv: "leaves (filters conf_virus_all) = [virus]"
    by (simp add: leaves_def conf_virus_all_def virus_def all_chain_def)
  note T = spawn_once_declare_once[OF h1, of 2 conf_virus_all]
  from T[THEN conjunct2, THEN mp, THEN mp, OF h2 h3] obtain r st' where
    run: "priv_send_config os_ok 2 conf_virus_all priv0 = Some (Returns r st')" by blast
  from T[THEN conjunct1, rule_format, OF run]
  have "\<exists>new. st' = emits new priv0
       \<and> names_of IMSG_RECONF_FILTER_PROC new
           = map (\<lambda>f. Some (name f)) (leaves (filters conf_virus_all))
       \<and> length (filter ((=) Socketpair) new) = length (leaves (filters conf_virus_all))
       \<and> length (filter ((=) Fork) new) = length (leaves (filters conf_virus_all))
       \<and> names_of IMSG_RECONF_FILTER new = map (\<lambda>f. Some (name f)) (filters conf_virus_all)" .
  then have "\<exists>new. st' = emits new priv0
         \<and> names_of IMSG_RECONF_FILTER_PROC new = [Some ''virus'']
         \<and> length (filter ((=) Socketpair) new) = 1
         \<and> length (filter ((=) Fork) new) = 1
         \<and> names_of IMSG_RECONF_FILTER new = [Some ''virus'', Some ''all'']"
    by (simp add: lv) (simp add: conf_virus_all_def virus_def all_chain_def)
  with run h1 show ?thesis by blast
qed

text \<open>
  The claim as stated fails when the begin marker cannot be composed: the function
  returns \<open>-1\<close> at once, and for a configuration with a leaf and a chain no filter
  process is spawned and no entry is declared.
\<close>

theorem nothing_sent_when_begin_fails:
  "priv_send_config os_compose_fails 2 conf_virus_all priv0
     = Some (Returns (- 1) (emits [Compose Engine (Imsg IMSG_RECONF_CONF 0 0 (- 1) None)] priv0))
   \<and> leaves (filters conf_virus_all) = [virus]
   \<and> names_of IMSG_RECONF_FILTER_PROC [Compose Engine (Imsg IMSG_RECONF_CONF 0 0 (- 1) None)] = []
   \<and> names_of IMSG_RECONF_FILTER [Compose Engine (Imsg IMSG_RECONF_CONF 0 0 (- 1) None)] = []
   \<and> filter ((=) Socketpair) [Compose Engine (Imsg IMSG_RECONF_CONF 0 0 (- 1) None)] = []"
proof -
  have "proc_compose_ret os_compose_fails
          (trace priv0 @ [Compose Engine (Imsg IMSG_RECONF_CONF 0 0 (- 1) None)]) = - 1"
    by (simp add: os_compose_fails_def os_ok_def)
  then have "priv_send_config os_compose_fails 2 conf_virus_all priv0
     = Some (Returns (- 1) (emits [Compose Engine (Imsg IMSG_RECONF_CONF 0 0 (- 1) None)] priv0))"
    by (rule priv_send_config_begin_fails)
  moreover have "leaves (filters conf_virus_all) = [virus]"
    by (simp add: leaves_def conf_virus_all_def virus_def all_chain_def)
  ultimately show ?thesis
    by (simp add: names_of_def)
qed

text \<open>
  C1, as amended. For the configuration with the leaf \<open>virus\<close> (argv
  \<open>[clamfilter]\<close>) followed by the chain \<open>all\<close> over \<open>[virus]\<close>, when the begin
  marker is composed without failure and every \<^verbatim>\<open>socketpair\<close> and \<^verbatim>\<open>fork\<close> succeeds
  with this process as the parent, \<^verbatim>\<open>priv_send_config\<close> returns having sent the
  engine exactly: the begin marker; the spawn of \<open>virus\<close>; the declaration of
  \<open>virus\<close> followed by the member \<open>virus\<close>; the declaration of \<open>all\<close> followed by
  the member \<open>virus\<close>; the end marker. For a leaf the resolution step after its
  declaration sends one member message, which names the leaf itself.
\<close>

theorem virus_all_sequence:
  assumes "proc_compose_ret os (trace st @ [Compose Engine (Imsg IMSG_RECONF_CONF 0 0 (- 1) None)]) \<noteq> - 1"
    and "\<forall>h. socketpair_ret os h \<noteq> None \<and> fork_ret os h \<noteq> - 1 \<and> fork_ret os h \<noteq> 0"
  shows "\<exists>r st' new. priv_send_config os (Suc (Suc n)) conf_virus_all st = Some (Returns r st')
           \<and> st' = emits new st
           \<and> map imsg_label (to_engine new)
               = [(IMSG_RECONF_CONF, None),
                  (IMSG_RECONF_FILTER_PROC, Some ''virus''),
                  (IMSG_RECONF_FILTER, Some ''virus''), (IMSG_RECONF_FILTER_NODE, Some ''virus''),
                  (IMSG_RECONF_FILTER, Some ''all''), (IMSG_RECONF_FILTER_NODE, Some ''virus''),
                  (IMSG_RECONF_END, None)]"
proof -
  have res: "\<forall>f \<in> set (filters conf_virus_all).
      priv_send_filter_conf (Suc (Suc n)) conf_virus_all f \<noteq> None"
    by (simp add: conf_virus_all_def virus_def all_chain_def lookup_filter_def)
  have decl: "map imsg_label (declarations (Suc (Suc n)) conf_virus_all (filters conf_virus_all))
      = [(IMSG_RECONF_FILTER, Some ''virus''), (IMSG_RECONF_FILTER_NODE, Some ''virus''),
         (IMSG_RECONF_FILTER, Some ''all''), (IMSG_RECONF_FILTER_NODE, Some ''virus'')]"
    by (simp add: declarations_def conf_virus_all_def virus_def all_chain_def lookup_filter_def
        imsg_label_def)
  have lv: "leaves (filters conf_virus_all) = [virus]"
    by (simp add: leaves_def conf_virus_all_def virus_def all_chain_def)
  from priv_send_config_total[OF assms res] obtain r st' where
    run: "priv_send_config os (Suc (Suc n)) conf_virus_all st = Some (Returns r st')" by blast
  from priv_send_config_Returns[OF run assms(1)] obtain new where
    H: "st' = emits new st
     \<and> map imsg_label (to_engine new)
         = (IMSG_RECONF_CONF, None)
           # map (\<lambda>f. (IMSG_RECONF_FILTER_PROC, Some (name f))) (leaves (filters conf_virus_all))
           @ map imsg_label (declarations (Suc (Suc n)) conf_virus_all (filters conf_virus_all))
           @ [(IMSG_RECONF_END, None)]
     \<and> length (filter ((=) Socketpair) new) = length (leaves (filters conf_virus_all))
     \<and> length (filter ((=) Fork) new) = length (leaves (filters conf_virus_all))
     \<and> (\<forall>f \<in> set (filters conf_virus_all).
           priv_send_filter_conf (Suc (Suc n)) conf_virus_all f \<noteq> None)" ..
  from H have A: "st' = emits new st" by (rule conjunct1)
  from H have "map imsg_label (to_engine new)
         = (IMSG_RECONF_CONF, None)
           # map (\<lambda>f. (IMSG_RECONF_FILTER_PROC, Some (name f))) (leaves (filters conf_virus_all))
           @ map imsg_label (declarations (Suc (Suc n)) conf_virus_all (filters conf_virus_all))
           @ [(IMSG_RECONF_END, None)]" by (elim conjE)
  then have B: "map imsg_label (to_engine new)
               = [(IMSG_RECONF_CONF, None),
                  (IMSG_RECONF_FILTER_PROC, Some ''virus''),
                  (IMSG_RECONF_FILTER, Some ''virus''), (IMSG_RECONF_FILTER_NODE, Some ''virus''),
                  (IMSG_RECONF_FILTER, Some ''all''), (IMSG_RECONF_FILTER_NODE, Some ''virus''),
                  (IMSG_RECONF_END, None)]"
    by (simp only: decl lv) (simp add: virus_def)
  show ?thesis
    by (rule exI[of _ r], rule exI[of _ st'], rule exI[of _ new], intro conjI)
      (fact run, fact A, fact B)
qed

theorem virus_all_sequence_witness:
  "proc_compose_ret os_ok (trace priv0 @ [Compose Engine (Imsg IMSG_RECONF_CONF 0 0 (- 1) None)]) \<noteq> - 1
   \<and> (\<forall>h. socketpair_ret os_ok h \<noteq> None \<and> fork_ret os_ok h \<noteq> - 1 \<and> fork_ret os_ok h \<noteq> 0)
   \<and> (\<exists>r st' new. priv_send_config os_ok (Suc (Suc 0)) conf_virus_all priv0 = Some (Returns r st')
           \<and> st' = emits new priv0
           \<and> map imsg_label (to_engine new)
               = [(IMSG_RECONF_CONF, None),
                  (IMSG_RECONF_FILTER_PROC, Some ''virus''),
                  (IMSG_RECONF_FILTER, Some ''virus''), (IMSG_RECONF_FILTER_NODE, Some ''virus''),
                  (IMSG_RECONF_FILTER, Some ''all''), (IMSG_RECONF_FILTER_NODE, Some ''virus''),
                  (IMSG_RECONF_END, None)])"
proof -
  have h1: "proc_compose_ret os_ok (trace priv0 @ [Compose Engine (Imsg IMSG_RECONF_CONF 0 0 (- 1) None)]) \<noteq> - 1"
    by (simp add: os_ok_def)
  have h2: "\<forall>h. socketpair_ret os_ok h \<noteq> None \<and> fork_ret os_ok h \<noteq> - 1 \<and> fork_ret os_ok h \<noteq> 0"
    by (simp add: os_ok_def)
  from virus_all_sequence[OF h1 h2, of 0] h1 h2 show ?thesis
    by (intro conjI)
qed

text \<open>
  The claim as stated fails: in the environment where every call succeeds the
  engine gets seven messages, not six. After the declaration of the leaf \<open>virus\<close>
  comes a member message for it.
\<close>

theorem leaf_declaration_has_member:
  "\<exists>st'. priv_send_config os_ok 2 conf_virus_all priv0 = Some (Returns 0 st')
      \<and> map imsg_label (to_engine (trace st'))
          = [(IMSG_RECONF_CONF, None),
             (IMSG_RECONF_FILTER_PROC, Some ''virus''),
             (IMSG_RECONF_FILTER, Some ''virus''), (IMSG_RECONF_FILTER_NODE, Some ''virus''),
             (IMSG_RECONF_FILTER, Some ''all''), (IMSG_RECONF_FILTER_NODE, Some ''virus''),
             (IMSG_RECONF_END, None)]
      \<and> map imsg_label (to_engine (trace st'))
          \<noteq> [(IMSG_RECONF_CONF, None),
             (IMSG_RECONF_FILTER_PROC, Some ''virus''),
             (IMSG_RECONF_FILTER, Some ''virus''),
             (IMSG_RECONF_FILTER, Some ''all''), (IMSG_RECONF_FILTER_NODE, Some ''virus''),
             (IMSG_RECONF_END, None)]"
  unfolding virus_all_run by (simp add: emits_fields imsg_label_def priv0_def)

text \<open>
  C4. From every state: when \<^verbatim>\<open>parse_config\<close> fails, \<^verbatim>\<open>priv_reload\<close> returns \<open>-1\<close>
  and \<^verbatim>\<open>env\<close> is unchanged. When it gives a configuration, \<^verbatim>\<open>priv_send_config\<close> runs
  on it: if that returns \<open>0\<close>, \<^verbatim>\<open>priv_reload\<close> clears the previous configuration,
  installs the new one as \<^verbatim>\<open>env\<close> and returns \<open>0\<close>; if it returns \<open>-1\<close>,
  \<^verbatim>\<open>priv_reload\<close> returns \<open>-1\<close> with \<^verbatim>\<open>env\<close> unchanged and nothing done after the
  distribution. \<^verbatim>\<open>priv_reload\<close> returns \<open>0\<close> only when the distribution returned \<open>0\<close>,
  and whenever it returns, \<^verbatim>\<open>env\<close> is the new configuration if it returned \<open>0\<close> and the
  old one otherwise.
\<close>

theorem reload_installs_iff_distributed:
  "(parse_config_ret os (trace (emit (ParseConfig (conffile st)) st)) = None \<longrightarrow>
      (\<exists>st'. priv_reload os n st = Some (Returns (- 1) st') \<and> env st' = env st))
   \<and> (\<forall>xconf. parse_config_ret os (trace (emit (ParseConfig (conffile st)) st)) = Some xconf \<longrightarrow>
        (\<forall>st2. priv_send_config os n xconf (emit (ParseConfig (conffile st)) st) = Some (Returns 0 st2) \<longrightarrow>
            priv_reload os n st = Some (Returns 0 ((emit (ConfigClear (env st)) st2)\<lparr>env := xconf\<rparr>)))
      \<and> (\<forall>st2. priv_send_config os n xconf (emit (ParseConfig (conffile st)) st) = Some (Returns (- 1) st2) \<longrightarrow>
            priv_reload os n st = Some (Returns (- 1) st2) \<and> env st2 = env st)
      \<and> (\<forall>r st'. priv_reload os n st = Some (Returns r st') \<longrightarrow>
            (r = 0 \<or> r = - 1)
          \<and> (r = 0 \<longleftrightarrow> (\<exists>st2. priv_send_config os n xconf (emit (ParseConfig (conffile st)) st)
                                  = Some (Returns 0 st2)))
          \<and> env st' = (if r = 0 then xconf else env st)))"
proof (intro conjI allI impI)
  assume "parse_config_ret os (trace (emit (ParseConfig (conffile st)) st)) = None"
  then show "\<exists>st'. priv_reload os n st = Some (Returns (- 1) st') \<and> env st' = env st"
    by (simp add: priv_reload_def Let_def emit_emits emits_fields)
next
  fix xconf st2
  assume "parse_config_ret os (trace (emit (ParseConfig (conffile st)) st)) = Some xconf"
    and run: "priv_send_config os n xconf (emit (ParseConfig (conffile st)) st) = Some (Returns 0 st2)"
  moreover from priv_send_config_env[OF run] have "env st2 = env st"
    by (simp add: emit_emits emits_fields)
  ultimately show "priv_reload os n st
      = Some (Returns 0 ((emit (ConfigClear (env st)) st2)\<lparr>env := xconf\<rparr>))"
    by (simp add: priv_reload_def Let_def)
next
  fix xconf st2
  assume "parse_config_ret os (trace (emit (ParseConfig (conffile st)) st)) = Some xconf"
    and "priv_send_config os n xconf (emit (ParseConfig (conffile st)) st) = Some (Returns (- 1) st2)"
  then show "priv_reload os n st = Some (Returns (- 1) st2)"
    by (simp add: priv_reload_def Let_def)
next
  fix xconf st2
  assume "priv_send_config os n xconf (emit (ParseConfig (conffile st)) st) = Some (Returns (- 1) st2)"
  from priv_send_config_env[OF this] show "env st2 = env st"
    by (simp add: emit_emits emits_fields)
next
  fix xconf r st'
  assume p: "parse_config_ret os (trace (emit (ParseConfig (conffile st)) st)) = Some xconf"
    and rl: "priv_reload os n st = Some (Returns r st')"
  from p rl obtain r2 st2 where
    run: "priv_send_config os n xconf (emit (ParseConfig (conffile st)) st) = Some (Returns r2 st2)"
    by (auto simp: priv_reload_def Let_def split: option.splits result.splits)
  from priv_send_config_frame[OF run] have r2: "r2 = 0 \<or> r2 = - 1" by blast
  from priv_send_config_env[OF run] have e: "env st2 = env st"
    by (simp add: emit_emits emits_fields)
  from p rl run r2 e
  have R: "(r = 0 \<and> r2 = 0 \<and> env st' = xconf) \<or> (r = - 1 \<and> r2 = - 1 \<and> env st' = env st)"
    by (auto simp: priv_reload_def Let_def emit_emits emits_fields)
  from R show "r = 0 \<or> r = - 1" by auto
  from R run show "r = 0 \<longleftrightarrow> (\<exists>st2. priv_send_config os n xconf (emit (ParseConfig (conffile st)) st)
                                  = Some (Returns 0 st2))" by auto
  from R show "env st' = (if r = 0 then xconf else env st)" by auto
qed

theorem reload_installs_iff_distributed_witness:
  "parse_config_ret os_noparse (trace (emit (ParseConfig (conffile priv0)) priv0)) = None
   \<and> (\<exists>st'. priv_reload os_noparse 2 priv0 = Some (Returns (- 1) st') \<and> env st' = env priv0)
   \<and> parse_config_ret os_ok (trace (emit (ParseConfig (conffile priv0)) priv0)) = Some conf_virus_all
   \<and> (\<exists>st'. priv_reload os_ok 2 priv0 = Some (Returns 0 st') \<and> env st' = conf_virus_all
         \<and> env st' \<noteq> env priv0)
   \<and> parse_config_ret os_compose_fails (trace (emit (ParseConfig (conffile priv0)) priv0))
       = Some conf_virus_all
   \<and> (\<exists>st'. priv_reload os_compose_fails 2 priv0 = Some (Returns (- 1) st') \<and> env st' = env priv0)"
proof -
  have p1: "parse_config_ret os_noparse (trace (emit (ParseConfig (conffile priv0)) priv0)) = None"
    by (simp add: os_noparse_def os_ok_def)
  have p2: "parse_config_ret os_ok (trace (emit (ParseConfig (conffile priv0)) priv0))
      = Some conf_virus_all"
    by (simp add: os_ok_def)
  have p3: "parse_config_ret os_compose_fails (trace (emit (ParseConfig (conffile priv0)) priv0))
      = Some conf_virus_all"
    by (simp add: os_compose_fails_def os_ok_def)
  from reload_installs_iff_distributed[of os_noparse priv0 2, THEN conjunct1, THEN mp, OF p1]
  have a: "\<exists>st'. priv_reload os_noparse 2 priv0 = Some (Returns (- 1) st') \<and> env st' = env priv0" .
  note ok = reload_installs_iff_distributed[of os_ok priv0 2, THEN conjunct2, THEN spec,
      THEN mp, OF p2]
  from ok[THEN conjunct1, THEN spec, THEN mp, OF virus_all_run]
  have "env (the_state (the (priv_reload os_ok 2 priv0))) = conf_virus_all
      \<and> (\<exists>st'. priv_reload os_ok 2 priv0 = Some (Returns 0 st'))"
    by simp
  moreover have "conf_virus_all \<noteq> env priv0"
    by (simp add: conf_virus_all_def priv0_def)
  ultimately have b: "\<exists>st'. priv_reload os_ok 2 priv0 = Some (Returns 0 st')
      \<and> env st' = conf_virus_all \<and> env st' \<noteq> env priv0"
    by auto
  have "proc_compose_ret os_compose_fails
          (trace (emit (ParseConfig (conffile priv0)) priv0)
             @ [Compose Engine (Imsg IMSG_RECONF_CONF 0 0 (- 1) None)]) = - 1"
    by (simp add: os_compose_fails_def os_ok_def)
  note run = priv_send_config_begin_fails[OF this, of 2 conf_virus_all]
  note bad = reload_installs_iff_distributed[of os_compose_fails priv0 2, THEN conjunct2,
      THEN spec, THEN mp, OF p3]
  from bad[THEN conjunct2, THEN conjunct1, THEN spec, THEN mp, OF run]
  have c: "\<exists>st'. priv_reload os_compose_fails 2 priv0 = Some (Returns (- 1) st')
      \<and> env st' = env priv0"
    by (rule exI)
  from p1 a p2 b p3 c show ?thesis by (intro conjI)
qed

text \<open>
  C6. The child made by \<^verbatim>\<open>priv_send_filter_proc\<close> for a leaf with the argument vector
  \<open>[clamfilter, -v]\<close> binds the channel to descriptor 3, closes the descriptors from
  4 on and executes \<open>clamfilter\<close>; the argument vector of the new image is \<open>[-v]\<close>,
  the configured vector without its first entry, and for the leaf \<open>virus\<close> with the
  vector \<open>[clamfilter]\<close> it is empty.
\<close>

theorem filter_child_argument_vector:
  "priv_send_filter_proc os_child
       \<lparr>name = ''virus'', chain_flag = False, argv = [''clamfilter'', ''-v'']\<rparr> priv0
     = Stops (Exec ''clamfilter'' [''-v''])
         (emits [Socketpair, Fork, Dup2 5 3, Closefrom 4, Execvp ''clamfilter'' [''-v'']] priv0)
   \<and> priv_send_filter_proc os_child virus priv0
     = Stops (Exec ''clamfilter'' [])
         (emits [Socketpair, Fork, Dup2 5 3, Closefrom 4, Execvp ''clamfilter'' []] priv0)"
  by (simp add: priv_send_filter_proc_def Let_def emit_emits emits_emits emits_fields
      os_child_def os_ok_def virus_def)



text \<open>
  C10. An invocation that gets as far as spawning the engine: \<^verbatim>\<open>smtpfd -d\<close>, run as
  root with the daemon user present and a configuration that parses. The stores
  \<^verbatim>\<open>rargv[rargc++]\<close> and \<^verbatim>\<open>rargv[1]\<close> are inside the array and the frontend is
  spawned; the next store, \<^verbatim>\<open>rargv[argc - 3] = NULL\<close> with \<^verbatim>\<open>argc\<close> being \<open>0\<close> after
  the options, is at index \<open>-3\<close>, outside the seven cells.
\<close>

theorem engine_argv_store_out_of_bounds:
  "main h0 os_ok 2 (Some ''smtpfd'') [(CHR ''d'', [])] 0 []
     = Some (Stops (OutOfBounds (- 3))
         (priv0\<lparr>env := conf_virus_all, conffile := ''/etc/mail/smtpfd.conf'',
                csock := ''/var/run/smtpfd.sock'',
                trace := [ParseConfig ''/etc/mail/smtpfd.conf'', Log ''startup'',
                          ProcExec Frontend [''smtpfd'', ''-F'', ''-d'', ''-s'',
                                             ''/var/run/smtpfd.sock'']]\<rparr>))"
  by (simp add: main_def main_options_def getopt_case_def main_spawn_def proc_exec_def Let_def
      frontend_args_def rargv_store_def c_args_def emit_def eval_nat_numeral
      h0_def os_ok_def priv0_def)

text \<open>
  C9, as amended. When the options are valid, none of them is \<^verbatim>\<open>-E\<close> or \<^verbatim>\<open>-F\<close>, no
  argument follows them and \<^verbatim>\<open>-n\<close> is among them (for header constants with
  \<^verbatim>\<open>OPT_NOACTION\<close> and \<^verbatim>\<open>OPT_VERBOSE\<close> non-zero and sharing no bit): the option loop
  returns having at most logged; then if \<^verbatim>\<open>parse_config\<close> fails the process exits
  with status 1, and if it succeeds the process exits with status 0 after printing
  \<open>configuration OK\<close> on standard error, or, when \<^verbatim>\<open>-v\<close> is also given, after
  printing the parsed configuration on standard output instead. In each case
  nothing else has happened: no child process is spawned.
\<close>

theorem noaction_exits:
  assumes "CHR ''n'' \<in> fst ` set opts"
    and "fst ` set opts \<subseteq> {CHR ''D'', CHR ''d'', CHR ''f'', CHR ''n'', CHR ''s'', CHR ''v''}"
    and "nargs \<le> 0"
    and "OPT_NOACTION h \<noteq> 0" and "OPT_VERBOSE h \<noteq> 0" and "OPT_NOACTION h AND OPT_VERBOSE h = 0"
  shows "\<exists>v st. getopt_loop h os opts
             \<lparr>debug = False, engine_flag = False, frontend_flag = False,
              saved_argv0 = (case argv0 of None \<Rightarrow> ''smtpfd'' | Some a \<Rightarrow> a), argc = nargs\<rparr>
             (priv0\<lparr>conffile := CONF_FILE h, csock := SMTPFD_SOCKET h\<rparr>) = Returns v st
         \<and> (\<exists>logs. trace st = map Log logs)
         \<and> main h os k argv0 opts nargs its =
             Some (case parse_config_ret os (trace st @ [ParseConfig (conffile st)]) of
                     None \<Rightarrow> Stops (Exit 1) (emits [ParseConfig (conffile st)] st)
                   | Some c \<Rightarrow>
                       Stops (Exit 0)
                         (if CHR ''v'' \<in> fst ` set opts
                          then emits (ParseConfig (conffile st)
                                        # map (\<lambda>f. Stdout (config_line f)) (filters c))
                                 (st\<lparr>env := c\<rparr>)
                          else emits [ParseConfig (conffile st), Stderr ''configuration OK\<newline>'']
                                 (st\<lparr>env := c\<rparr>)))"
proof -
  let ?v0 = "\<lparr>debug = False, engine_flag = False, frontend_flag = False,
              saved_argv0 = (case argv0 of None \<Rightarrow> ''smtpfd'' | Some a \<Rightarrow> a), argc = nargs\<rparr>"
  let ?st0 = "priv0\<lparr>conffile := CONF_FILE h, csock := SMTPFD_SOCKET h\<rparr>"
  from getopt_loop_valid[OF assms(2)] obtain v st where
    gl: "getopt_loop h os opts ?v0 ?st0 = Returns v st" by blast
  note fr = getopt_loop_Returns[OF gl]
  from assms(2) have noEF: "CHR ''E'' \<notin> fst ` set opts" "CHR ''F'' \<notin> fst ` set opts" by auto
  from fr noEF assms(3) have v: "argc v \<le> 0" "\<not> engine_flag v" "\<not> frontend_flag v" by simp_all
  from fr have logs: "\<exists>logs. trace st = map Log logs" by (simp add: priv0_def)
  from getopt_loop_noaction[OF gl assms(4)] assms(1)
  have na: "cmd_opts st AND OPT_NOACTION h \<noteq> 0" by simp
  have vb: "cmd_opts st AND OPT_VERBOSE h \<noteq> 0 \<longleftrightarrow> CHR ''v'' \<in> fst ` set opts"
  proof
    assume nz: "cmd_opts st AND OPT_VERBOSE h \<noteq> 0"
    show "CHR ''v'' \<in> fst ` set opts"
    proof (rule ccontr)
      assume "CHR ''v'' \<notin> fst ` set opts"
      from getopt_loop_quiet[OF gl assms(6) this] nz show False by (simp add: priv0_def)
    qed
  next
    assume "CHR ''v'' \<in> fst ` set opts"
    with getopt_loop_verbose[OF gl assms(5)] show "cmd_opts st AND OPT_VERBOSE h \<noteq> 0" by simp
  qed
  have "main h os k argv0 opts nargs its =
             Some (case parse_config_ret os (trace st @ [ParseConfig (conffile st)]) of
                     None \<Rightarrow> Stops (Exit 1) (emits [ParseConfig (conffile st)] st)
                   | Some c \<Rightarrow>
                       Stops (Exit 0)
                         (if CHR ''v'' \<in> fst ` set opts
                          then emits (ParseConfig (conffile st)
                                        # map (\<lambda>f. Stdout (config_line f)) (filters c))
                                 (st\<lparr>env := c\<rparr>)
                          else emits [ParseConfig (conffile st), Stderr ''configuration OK\<newline>'']
                                 (st\<lparr>env := c\<rparr>)))"
    unfolding main_def main_options_noaction[OF gl v na] vb
    by (simp split: option.splits)
  with gl logs show ?thesis by blast
qed

theorem noaction_exits_witness:
  "OPT_NOACTION h0 \<noteq> 0 \<and> OPT_VERBOSE h0 \<noteq> 0 \<and> OPT_NOACTION h0 AND OPT_VERBOSE h0 = 0
   \<and> main h0 os_ok 2 (Some ''smtpfd'') [(CHR ''n'', [])] 0 []
       = Some (Stops (Exit 0)
           (priv0\<lparr>env := conf_virus_all, conffile := ''/etc/mail/smtpfd.conf'',
                  csock := ''/var/run/smtpfd.sock'', cmd_opts := 4,
                  trace := [ParseConfig ''/etc/mail/smtpfd.conf'',
                            Stderr ''configuration OK\<newline>'']\<rparr>))
   \<and> main h0 os_noparse 2 (Some ''smtpfd'') [(CHR ''n'', [])] 0 []
       = Some (Stops (Exit 1)
           (priv0\<lparr>conffile := ''/etc/mail/smtpfd.conf'', csock := ''/var/run/smtpfd.sock'',
                  cmd_opts := 4, trace := [ParseConfig ''/etc/mail/smtpfd.conf'']\<rparr>))"
proof -
  let ?opts = "[(CHR ''n'', [])] :: (char \<times> string) list"
  let ?v0 = "\<lparr>debug = False, engine_flag = False, frontend_flag = False,
              saved_argv0 = (case Some ''smtpfd'' of None \<Rightarrow> ''smtpfd'' | Some a \<Rightarrow> a),
              argc = (0::int)\<rparr>"
  let ?st0 = "priv0\<lparr>conffile := CONF_FILE h0, csock := SMTPFD_SOCKET h0\<rparr>"
  have h1: "CHR ''n'' \<in> fst ` set ?opts" by simp
  have h2: "fst ` set ?opts \<subseteq> {CHR ''D'', CHR ''d'', CHR ''f'', CHR ''n'', CHR ''s'', CHR ''v''}"
    by simp
  have h3: "(0::int) \<le> 0" by simp
  have h4: "OPT_NOACTION h0 \<noteq> 0" and h5: "OPT_VERBOSE h0 \<noteq> 0"
    and h6: "OPT_NOACTION h0 AND OPT_VERBOSE h0 = 0"
    by (simp_all add: h0_def)
  have gl: "getopt_loop h0 os ?opts ?v0 ?st0
      = Returns ?v0 (priv0\<lparr>conffile := ''/etc/mail/smtpfd.conf'',
                            csock := ''/var/run/smtpfd.sock'', cmd_opts := 4\<rparr>)" for os
    by (simp add: getopt_case_def h0_def priv0_def)
  from noaction_exits[OF h1 h2 h3 h4 h5 h6, of os_ok "Some ''smtpfd''" 2 "[]"]
  have a: "main h0 os_ok 2 (Some ''smtpfd'') ?opts 0 []
       = Some (Stops (Exit 0)
           (priv0\<lparr>env := conf_virus_all, conffile := ''/etc/mail/smtpfd.conf'',
                  csock := ''/var/run/smtpfd.sock'', cmd_opts := 4,
                  trace := [ParseConfig ''/etc/mail/smtpfd.conf'',
                            Stderr ''configuration OK\<newline>'']\<rparr>))"
    unfolding gl by (auto simp: emits_def os_ok_def priv0_def)
  from noaction_exits[OF h1 h2 h3 h4 h5 h6, of os_noparse "Some ''smtpfd''" 2 "[]"]
  have b: "main h0 os_noparse 2 (Some ''smtpfd'') ?opts 0 []
       = Some (Stops (Exit 1)
           (priv0\<lparr>conffile := ''/etc/mail/smtpfd.conf'', csock := ''/var/run/smtpfd.sock'',
                  cmd_opts := 4, trace := [ParseConfig ''/etc/mail/smtpfd.conf'']\<rparr>))"
    unfolding gl by (auto simp: emits_def os_noparse_def os_ok_def priv0_def)
  from h4 h5 h6 a b show ?thesis by (intro conjI)
qed

text \<open>
  The claim as stated fails with \<^verbatim>\<open>-n -v\<close> on a configuration that parses: the
  process exits with status 0 having printed the configuration on standard output,
  and \<open>configuration OK\<close> is not printed.
\<close>

theorem noaction_verbose_prints_config:
  "\<exists>st'. main h0 os_ok 2 (Some ''smtpfd'') [(CHR ''n'', []), (CHR ''v'', [])] 0 []
            = Some (Stops (Exit 0) st')
      \<and> trace st' = [ParseConfig ''/etc/mail/smtpfd.conf'',
                      Stdout ''filter virus clamfilter\<newline>'', Stdout ''chain all virus\<newline>'']
      \<and> Stderr ''configuration OK\<newline>'' \<notin> set (trace st')"
  by (simp add: main_def main_options_def getopt_case_def Let_def emit_def emits_def
      config_print_def config_line_def h0_def os_ok_def priv0_def conf_virus_all_def virus_def
      all_chain_def)

text \<open>
  Beyond the claims: whatever the arguments and the environment, \<^verbatim>\<open>main\<close> ends
  before the engine is spawned. It exits (usage error, failed parse, \<^verbatim>\<open>-n\<close>), goes
  on as engine or frontend, ends in a fatal error of the privilege checks or of the
  frontend spawn, or reaches the store \<^verbatim>\<open>rargv[argc - 3] = NULL\<close>, which is outside
  the array because no argument is left after the options.
\<close>

theorem main_ends_before_engine:
  "\<exists>s st'. main h os n argv0 opts nargs its = Some (Stops s st')
      \<and> (s \<in> {Exit 0, Exit 1, Role Engine, Role Frontend, Fatal ''need root privileges'',
                Fatal ''unknown user %s'', Fatal ''proc_exec''}
           \<or> s = OutOfBounds (nargs - 3) \<and> nargs \<le> 0)"
proof (cases "main_options h os argv0 opts nargs priv0")
  case (Stops s st)
  from main_options_Stops[OF Stops] Stops show ?thesis
    by (auto simp: main_def)
next
  case (Returns v st)
  from main_options_Returns[OF Returns] have a: "argc v = nargs" "nargs \<le> 0" by simp_all
  then have "argc v < 3" by simp
  from main_spawn_store[OF this, of h os st] obtain s st' where
    sp: "main_spawn h os v st = Stops s st'" and
    s: "s = Fatal ''need root privileges'' \<or> s = Fatal ''unknown user %s''
                \<or> s = Fatal ''proc_exec'' \<or> s = OutOfBounds (argc v - 3)"
    by blast
  from Returns sp have "main h os n argv0 opts nargs its = Some (Stops s st')"
    by (simp add: main_def)
  with s a show ?thesis by auto
qed

end
